theory Spec2Isabelle
  imports Main "HOL-Library.AList" "HOL-Library.Sublist" "HOL-Library.Multiset"
begin

section \<open>JavaScript strings\<close>

text \<open>
  A JavaScript string is modelled as a \<^typ>\<open>string\<close>, one \<^typ>\<open>char\<close> per code unit, which
  covers the code points below 256. The string methods the controller calls are written out
  below with the results ECMAScript gives them on such strings.
\<close>

text \<open>\<^verbatim>\<open>s.split(sep)\<close> for a one-character separator: the empty string gives one empty piece.\<close>

fun js_split :: "char \<Rightarrow> string \<Rightarrow> string list" where
  "js_split c [] = [[]]"
| "js_split c (x # xs) =
     (if x = c then [] # js_split c xs
      else (case js_split c xs of [] \<Rightarrow> [[x]] | s # ss \<Rightarrow> (x # s) # ss))"

text \<open>\<^verbatim>\<open>pieces.join(sep)\<close>.\<close>

fun js_join :: "string \<Rightarrow> string list \<Rightarrow> string" where
  "js_join sep [] = []"
| "js_join sep [s] = s"
| "js_join sep (s # t # ss) = s @ sep @ js_join sep (t # ss)"

definition startsWith :: "string \<Rightarrow> string \<Rightarrow> bool" where
  "startsWith s p = (take (length p) s = p)"

definition endsWith :: "string \<Rightarrow> string \<Rightarrow> bool" where
  "endsWith s p = (length p \<le> length s \<and> drop (length s - length p) s = p)"

definition js_includes :: "string \<Rightarrow> char \<Rightarrow> bool" where
  "js_includes s c = (c \<in> set s)"

text \<open>\<^verbatim>\<open>toLowerCase\<close> on the code units below 256, the range of the strings here: the
  letters A to Z, and the Latin-1 capitals U+00C0 to U+00DE without the multiplication sign
  U+00D7, each 32 below its small letter. Every other code unit of the range is its own
  lower case.\<close>

definition lower_char :: "char \<Rightarrow> char" where
  "lower_char c =
     (let n = (of_char c :: nat)
      in if (65 \<le> n \<and> n \<le> 90) \<or> (192 \<le> n \<and> n \<le> 222 \<and> n \<noteq> 215) then char_of (n + 32) else c)"

definition toLowerCase :: "string \<Rightarrow> string" where
  "toLowerCase s = map lower_char s"

text \<open>\<^verbatim>\<open>s.slice(0, -n)\<close>: a negative end counts from the end of the string, but \<^verbatim>\<open>-0\<close> is
  \<^verbatim>\<open>0\<close>, so \<^verbatim>\<open>s.slice(0, -0)\<close> is the empty string.\<close>

definition slice_0_neg :: "string \<Rightarrow> nat \<Rightarrow> string" where
  "slice_0_neg s n = (if n = 0 then [] else take (length s - n) s)"

text \<open>The white space and line terminators that \<^verbatim>\<open>trim\<close> removes, in the modelled range.\<close>

definition is_js_space :: "char \<Rightarrow> bool" where
  "is_js_space c = ((of_char c :: nat) \<in> {9, 10, 11, 12, 13, 32, 160})"

definition trim :: "string \<Rightarrow> string" where
  "trim s = rev (dropWhile is_js_space (rev (dropWhile is_js_space s)))"

section \<open>Node's path module, POSIX flavour\<close>

text \<open>
  The controller calls \<^verbatim>\<open>path.resolve\<close>, \<^verbatim>\<open>path.normalize\<close>, \<^verbatim>\<open>path.join\<close>,
  \<^verbatim>\<open>path.relative\<close>, \<^verbatim>\<open>path.dirname\<close>, \<^verbatim>\<open>path.basename\<close>, \<^verbatim>\<open>path.isAbsolute\<close> and
  \<^verbatim>\<open>path.sep\<close> of Node.js. They are library code, not code of the repository; they are
  modelled here as Node documents and implements \<^verbatim>\<open>path.posix\<close>, with the process's working
  directory \<open>cwd\<close> as an explicit argument where Node reads it.
\<close>

definition path_sep :: char where
  "path_sep = CHR ''/''"

definition path_isAbsolute :: "string \<Rightarrow> bool" where
  "path_isAbsolute p = (p \<noteq> [] \<and> hd p = CHR ''/'')"

text \<open>Node's \<^verbatim>\<open>normalizeString\<close>, one path segment at a time: empty segments and \<^verbatim>\<open>.\<close> are
  dropped, \<^verbatim>\<open>..\<close> removes the segment before it, and is kept only where going above the
  start is allowed.\<close>

fun normSegs :: "bool \<Rightarrow> string list \<Rightarrow> string list \<Rightarrow> string list" where
  "normSegs allowAboveRoot [] res = res"
| "normSegs allowAboveRoot (s # ss) res =
     (if s = [] \<or> s = ''.'' then normSegs allowAboveRoot ss res
      else if s = ''..'' then
        (if res \<noteq> [] \<and> last res \<noteq> ''..'' then normSegs allowAboveRoot ss (butlast res)
         else if allowAboveRoot then normSegs allowAboveRoot ss (res @ [''..''])
         else normSegs allowAboveRoot ss res)
      else normSegs allowAboveRoot ss (res @ [s]))"

definition normalizeString :: "string \<Rightarrow> bool \<Rightarrow> string" where
  "normalizeString p allowAboveRoot = js_join ''/'' (normSegs allowAboveRoot (js_split CHR ''/'' p) [])"

text \<open>\<^verbatim>\<open>path.resolve(...args)\<close>: the arguments are read from the right until an absolute
  one is found, empty ones are skipped, and the working directory comes last.\<close>

fun resolveLoop :: "string list \<Rightarrow> string \<Rightarrow> string \<times> bool" where
  "resolveLoop [] acc = (acc, False)"
| "resolveLoop (p # ps) acc =
     (if p = [] then resolveLoop ps acc
      else if hd p = CHR ''/'' then (p @ ''/'' @ acc, True)
      else resolveLoop ps (p @ ''/'' @ acc))"

definition path_resolve :: "string \<Rightarrow> string list \<Rightarrow> string" where
  "path_resolve cwd args =
     (case resolveLoop (rev args @ [cwd]) [] of
        (resolvedPath, resolvedAbsolute) \<Rightarrow>
          (let n = normalizeString resolvedPath (\<not> resolvedAbsolute)
           in if resolvedAbsolute then ''/'' @ n else if n \<noteq> [] then n else ''.''))"

definition path_normalize :: "string \<Rightarrow> string" where
  "path_normalize p =
     (if p = [] then ''.''
      else
        (let isAbsolute = (hd p = CHR ''/'');
             trailingSeparator = (last p = CHR ''/'');
             n = normalizeString p (\<not> isAbsolute)
         in if n = [] then (if isAbsolute then ''/'' else if trailingSeparator then ''./'' else ''.'')
            else (if isAbsolute then ''/'' else []) @ n @ (if trailingSeparator then ''/'' else [])))"

definition path_join :: "string list \<Rightarrow> string" where
  "path_join args =
     (let joined = js_join ''/'' (filter (\<lambda>a. a \<noteq> []) args)
      in if joined = [] then ''.'' else path_normalize joined)"

text \<open>\<^verbatim>\<open>path.dirname\<close>: trailing separators are ignored, and the separator at index 0 is
  never the end of the directory part.\<close>

definition path_dirname :: "string \<Rightarrow> string" where
  "path_dirname p =
     (if p = [] then ''.''
      else
        (let hasRoot = (hd p = CHR ''/'');
             r = dropWhile (\<lambda>c. c \<noteq> CHR ''/'') (dropWhile (\<lambda>c. c = CHR ''/'') (rev (tl p)))
         in if r = [] then (if hasRoot then ''/'' else ''.'')
            else if hasRoot \<and> tl r = [] then ''//''
            else hd p # rev (tl r)))"

definition path_basename :: "string \<Rightarrow> string" where
  "path_basename p =
     rev (takeWhile (\<lambda>c. c \<noteq> CHR ''/'') (dropWhile (\<lambda>c. c = CHR ''/'') (rev p)))"

text \<open>The segments of a resolved path: \<^verbatim>\<open>/a/b\<close> has the segments \<^verbatim>\<open>a\<close> and \<^verbatim>\<open>b\<close>, the root
  has none.\<close>

definition segments :: "string \<Rightarrow> string list" where
  "segments p = filter (\<lambda>s. s \<noteq> []) (js_split CHR ''/'' p)"

fun commonPrefix :: "string list \<Rightarrow> string list \<Rightarrow> nat" where
  "commonPrefix (x # xs) (y # ys) = (if x = y then Suc (commonPrefix xs ys) else 0)"
| "commonPrefix xs ys = 0"

text \<open>\<^verbatim>\<open>path.relative(from, to)\<close>: both paths are resolved; the result climbs with one
  \<^verbatim>\<open>..\<close> for every segment of \<open>from\<close> below the longest common directory and then descends
  along the rest of \<open>to\<close>. Equal paths give the empty string.\<close>

definition path_relative :: "string \<Rightarrow> string \<Rightarrow> string \<Rightarrow> string" where
  "path_relative cwd from to =
     (let f = segments (path_resolve cwd [from]);
          t = segments (path_resolve cwd [to]);
          n = commonPrefix f t
      in js_join ''/'' (replicate (length f - n) ''..'' @ drop n t))"

section \<open>Template lookup names\<close>

text \<open>\<^verbatim>\<open>deriveTemplateName\<close> of the controller: the first search path whose relative path to
  the source neither starts with \<^verbatim>\<open>..\<close> nor is absolute gives the name.\<close>

fun deriveTemplateName :: "string \<Rightarrow> string \<Rightarrow> string list \<Rightarrow> string" where
  "deriveTemplateName cwd sourcePath [] = path_basename sourcePath"
| "deriveTemplateName cwd sourcePath (base # searchPaths) =
     (let relative = path_relative cwd base sourcePath
      in if \<not> startsWith relative ''..'' \<and> \<not> path_isAbsolute relative
         then js_join ''/'' (js_split path_sep relative)
         else deriveTemplateName cwd sourcePath searchPaths)"

text \<open>The derivation as the specification words it, for comparison with the code: a search
  path matches when the source is a proper descendant of it, that is, when the relative path
  is not empty, has no \<^verbatim>\<open>..\<close> segment and is not absolute.\<close>

definition properDescendant :: "string \<Rightarrow> string \<Rightarrow> string \<Rightarrow> bool" where
  "properDescendant cwd base sourcePath =
     (let relative = path_relative cwd base sourcePath
      in relative \<noteq> [] \<and> ''..'' \<notin> set (js_split path_sep relative) \<and>
         \<not> path_isAbsolute relative)"

fun spec_deriveTemplateName :: "string \<Rightarrow> string \<Rightarrow> string list \<Rightarrow> string" where
  "spec_deriveTemplateName cwd sourcePath [] = path_basename sourcePath"
| "spec_deriveTemplateName cwd sourcePath (base # searchPaths) =
     (if properDescendant cwd base sourcePath
      then js_join ''/'' (js_split path_sep (path_relative cwd base sourcePath))
      else spec_deriveTemplateName cwd sourcePath searchPaths)"

text \<open>A search path covers a source when it is the source itself or one of its ancestor
  directories; the path of the source below it is what is left of the source's segments.\<close>

definition covers :: "string \<Rightarrow> string \<Rightarrow> string \<Rightarrow> bool" where
  "covers cwd base sourcePath =
     prefix (segments (path_resolve cwd [base])) (segments (path_resolve cwd [sourcePath]))"

definition relativeBelow :: "string \<Rightarrow> string \<Rightarrow> string \<Rightarrow> string" where
  "relativeBelow cwd base sourcePath =
     js_join ''/'' (drop (length (segments (path_resolve cwd [base])))
                         (segments (path_resolve cwd [sourcePath])))"

section \<open>The host: platform, settings and the file tree\<close>

datatype platform = Win32 | Darwin | Linux

datatype logLevel = Silent | Normal | Verbose

text \<open>
  The part of the file system the controller reads: a tree of directory entries, as
  \<^verbatim>\<open>readDirectory\<close> lists them. \<open>OtherNode\<close> is any entry that exists and whose type is
  neither exactly \<^verbatim>\<open>FileType.File\<close> nor exactly \<^verbatim>\<open>FileType.Directory\<close> (a symbolic link to
  a file, a socket); it is a leaf, and what lies behind a link to a directory is not part of
  the tree. \<open>BrokenLink\<close> is a symbolic link whose target is missing,
  which \<^verbatim>\<open>readDirectory\<close> lists as a link and \<^verbatim>\<open>fs.existsSync\<close> does not find; and
  \<open>UnreadableDir\<close> is a directory that \<^verbatim>\<open>readDirectory\<close> fails on.
\<close>

datatype fsnode =
  FileNode | DirNode "(string \<times> fsnode) list" | UnreadableDir | OtherNode | BrokenLink

text \<open>
  \<^verbatim>\<open>a.localeCompare(b, undefined, { sensitivity: 'base' })\<close> belongs to the JavaScript engine
  and its locale data, not to the controller. It is taken as a parameter of the host: a
  collation says for two strings whether the comparison of the first with the second is not
  positive. Of the engine's comparison only this is used: it is a consistent comparator, so
  any two strings are comparable and the comparison is transitive.
\<close>

typedef collation =
  "{le :: string \<Rightarrow> string \<Rightarrow> bool.
      (\<forall>a b. le a b \<or> le b a) \<and> (\<forall>a b c. le a b \<longrightarrow> le b c \<longrightarrow> le a c)}"
  by (rule exI[of _ "\<lambda>a b. True"]) simp

setup_lifting type_definition_collation

record host =
  platform :: platform
  processCwd :: string
  fsCaseInsensitive :: bool
  disk :: fsnode
  templateExtension :: string
  additionalSearchPaths :: "string list"
  logLevel :: logLevel
  collator :: collation

fun findEntry :: "bool \<Rightarrow> string \<Rightarrow> (string \<times> fsnode) list \<Rightarrow> fsnode option" where
  "findEntry ci name [] = None"
| "findEntry ci name ((n, child) # entries) =
     (if (if ci then toLowerCase n = toLowerCase name else n = name) then Some child
      else findEntry ci name entries)"

fun fs_lookup :: "bool \<Rightarrow> fsnode \<Rightarrow> string list \<Rightarrow> fsnode option" where
  "fs_lookup ci node [] = Some node"
| "fs_lookup ci node (s # ss) =
     (case node of
        DirNode entries \<Rightarrow>
          (case findEntry ci s entries of None \<Rightarrow> None | Some child \<Rightarrow> fs_lookup ci child ss)
      | _ \<Rightarrow> None)"

text \<open>\<^verbatim>\<open>fs.existsSync(p)\<close> follows symbolic links: it is true for a file, a directory or any
  other entry that exists at the path, and false when the path leads nowhere or to a link
  whose target is missing.\<close>

definition existsSync :: "host \<Rightarrow> string \<Rightarrow> bool" where
  "existsSync h p =
     (case fs_lookup (fsCaseInsensitive h) (disk h) (segments (path_resolve (processCwd h) [p])) of
        None \<Rightarrow> False
      | Some BrokenLink \<Rightarrow> False
      | Some node \<Rightarrow> True)"

section \<open>The output channel and the warnings\<close>

record ui =
  outputLines :: "string list"
  warnings :: "string list"
  infos :: "string list"

definition noUi :: ui where
  "noUi = \<lparr>outputLines = [], warnings = [], infos = []\<rparr>"

definition appendLine :: "string \<Rightarrow> ui \<Rightarrow> ui" where
  "appendLine message u = u\<lparr>outputLines := outputLines u @ [message]\<rparr>"

definition showWarningMessage :: "string \<Rightarrow> ui \<Rightarrow> ui" where
  "showWarningMessage message u = u\<lparr>warnings := warnings u @ [message]\<rparr>"

definition showInformationMessage :: "string \<Rightarrow> ui \<Rightarrow> ui" where
  "showInformationMessage message u = u\<lparr>infos := infos u @ [message]\<rparr>"

text \<open>\<^verbatim>\<open>log(message, level)\<close>: nothing when the log level is silent, and verbose messages
  only when it is verbose.\<close>

definition log :: "host \<Rightarrow> string \<Rightarrow> logLevel \<Rightarrow> ui \<Rightarrow> ui" where
  "log h message level u =
     (if logLevel h = Silent then u
      else if level = Verbose \<and> logLevel h \<noteq> Verbose then u
      else appendLine message u)"

section \<open>Transforms\<close>

text \<open>
  A \<^verbatim>\<open>vscode.Uri\<close> built by \<^verbatim>\<open>Uri.file\<close> is modelled by its \<^verbatim>\<open>fsPath\<close>, and a workspace
  folder by the \<^verbatim>\<open>fsPath\<close> of its \<^verbatim>\<open>uri\<close>, the only part of it the controller reads. The
  fields of a \<^verbatim>\<open>TransformSpec\<close> carry the prefix \<open>spec_\<close>, and the description of a
  directory transform is \<open>dirDescription\<close>, since a field name belongs to one record.
\<close>

record TransformSpec =
  spec_source :: string
  spec_target :: string
  spec_recursive :: "bool option"

record FileTransformEntry =
  source :: string
  target :: string
  searchPaths :: "string list"
  templateName :: string
  description :: string

record DirectoryTransform =
  sourceDir :: string
  targetDir :: string
  recursive :: bool
  workspaceFolder :: "string option"
  dirDescription :: string

definition normalizeFsPath :: "host \<Rightarrow> string \<Rightarrow> string" where
  "normalizeFsPath h fsPath =
     (let normalized = path_resolve (processCwd h) [fsPath]
      in if platform h = Win32 then toLowerCase normalized else normalized)"

text \<open>\<^verbatim>\<open>uniquePaths\<close>: a JavaScript \<^verbatim>\<open>Set\<close> keeps the insertion order and ignores a value
  it already holds.\<close>

definition setAdd :: "'a \<Rightarrow> 'a list \<Rightarrow> 'a list" where
  "setAdd x seen = (if x \<in> set seen then seen else seen @ [x])"

definition uniquePaths :: "string list \<Rightarrow> string list" where
  "uniquePaths paths =
     fold (\<lambda>entry seen. if entry = [] then seen else setAdd (path_normalize entry) seen) paths []"

definition resolvePath :: "host \<Rightarrow> string \<Rightarrow> string option \<Rightarrow> string \<Rightarrow> string" where
  "resolvePath h v wsFolder configDir =
     (if path_isAbsolute v then path_normalize v
      else
        (let base = (case wsFolder of Some folder \<Rightarrow> folder | None \<Rightarrow> configDir)
         in path_normalize (path_resolve (processCwd h) [base, v])))"

definition buildSearchPaths :: "host \<Rightarrow> string \<Rightarrow> string option \<Rightarrow> string list" where
  "buildSearchPaths h sourcePath wsFolder =
     uniquePaths
       ([path_dirname sourcePath]
        @ (case wsFolder of Some folder \<Rightarrow> [folder] | None \<Rightarrow> [])
        @ map (\<lambda>additionalPath.
                 (case wsFolder of
                    Some folder \<Rightarrow> path_resolve (processCwd h) [folder, additionalPath]
                  | None \<Rightarrow> path_resolve (processCwd h) [additionalPath]))
              (additionalSearchPaths h))"

text \<open>The arrow of a description is the code point U+2192, outside the modelled range of
  code units; it stands here as its three UTF-8 bytes.\<close>

definition arrow :: string where
  "arrow = [char_of (226 :: nat), char_of (134 :: nat), char_of (146 :: nat)]"

text \<open>
  \<^verbatim>\<open>createFileTransformEntry\<close>. The result is the entry, or \<open>None\<close> for \<^verbatim>\<open>undefined\<close>,
  together with the output channel and warnings after the call. \<^verbatim>\<open>fs.existsSync\<close> does not
  throw, so the \<^verbatim>\<open>catch\<close> around it has no branch here.
\<close>

definition createFileTransformEntry ::
  "host \<Rightarrow> TransformSpec \<Rightarrow> string option \<Rightarrow> string \<Rightarrow> ui \<Rightarrow> FileTransformEntry option \<times> ui" where
  "createFileTransformEntry h spec wsFolder configDir u =
     (let sourcePath = resolvePath h (spec_source spec) wsFolder configDir;
          targetPath = resolvePath h (spec_target spec) wsFolder configDir
      in if sourcePath = [] \<or> targetPath = [] then (None, u)
         else if \<not> existsSync h sourcePath then
           (None,
            showWarningMessage (''Nunjucksu: source file not found: '' @ path_basename sourcePath)
              (appendLine (''Nunjucksu: warning - source file does not exist: '' @ spec_source spec) u))
         else if normalizeFsPath h sourcePath = normalizeFsPath h targetPath then
           (None,
            appendLine (''Nunjucksu: skipped transform where source and target are the same path (''
                        @ spec_source spec @ '').'') u)
         else
           (let sPaths = buildSearchPaths h sourcePath wsFolder;
                tName = deriveTemplateName (processCwd h) sourcePath sPaths
            in if tName = [] \<or> trim tName = [] then
                 (None,
                  appendLine (''Nunjucksu: could not derive template name for '' @ spec_source spec) u)
               else
                 (Some \<lparr>source = sourcePath, target = targetPath, searchPaths = sPaths,
                        templateName = tName,
                        description = spec_source spec @ '' '' @ arrow @ '' '' @ spec_target spec\<rparr>,
                  u)))"

definition createDirectoryTransform ::
  "host \<Rightarrow> TransformSpec \<Rightarrow> string option \<Rightarrow> string \<Rightarrow> DirectoryTransform option" where
  "createDirectoryTransform h spec wsFolder configDir =
     (let sDir = resolvePath h (spec_source spec) wsFolder configDir;
          tDir = resolvePath h (spec_target spec) wsFolder configDir
      in if sDir = [] \<or> tDir = [] then None
         else
           (let r = (case spec_recursive spec of Some b \<Rightarrow> b | None \<Rightarrow> False)
            in Some \<lparr>sourceDir = path_normalize sDir, targetDir = path_normalize tDir,
                     recursive = r, workspaceFolder = wsFolder,
                     dirDescription = spec_source spec @ '' '' @ arrow @ '' '' @ spec_target spec
                                      @ (if r then '' (recursive)'' else [])\<rparr>))"

section \<open>Directory expansion\<close>

definition stripNjkExtension :: "host \<Rightarrow> string \<Rightarrow> string" where
  "stripNjkExtension h v =
     (let ext = templateExtension h
      in if endsWith (toLowerCase v) (toLowerCase ext) then slice_0_neg v (length ext) else v)"

datatype scanError = ScanError string

text \<open>An entry of type \<^verbatim>\<open>FileType.Directory\<close>, whether it can be listed or not.\<close>

definition isDirectory :: "fsnode \<Rightarrow> bool" where
  "isDirectory node = (case node of DirNode _ \<Rightarrow> True | UnreadableDir \<Rightarrow> True | _ \<Rightarrow> False)"


text \<open>
  \<^verbatim>\<open>walkDirectoryForTemplates\<close>. The node is what the file system holds at
  \<open>currentPath\<close>; \<^verbatim>\<open>readDirectory\<close> lists the entries of a readable directory and throws on
  anything else, and the exception leaves the whole walk. The bucket holds the pairs of
  \<^verbatim>\<open>uri\<close> and \<^verbatim>\<open>relative\<close> in the order they are pushed.
\<close>

fun walkDirectoryForTemplates ::
    "host \<Rightarrow> string \<Rightarrow> string \<Rightarrow> bool \<Rightarrow> fsnode \<Rightarrow> (string \<times> string) list
      \<Rightarrow> scanError + (string \<times> string) list"
  and walkEntries ::
    "host \<Rightarrow> string \<Rightarrow> string \<Rightarrow> bool \<Rightarrow> string \<Rightarrow> (string \<times> fsnode) list
      \<Rightarrow> (string \<times> string) list \<Rightarrow> scanError + (string \<times> string) list"
  where
  "walkDirectoryForTemplates h rootPath relativePath rec node bucket =
     (let currentPath = (if relativePath \<noteq> [] then path_join [rootPath, relativePath] else rootPath)
      in case node of
           DirNode entries \<Rightarrow> walkEntries h rootPath relativePath rec currentPath entries bucket
         | _ \<Rightarrow> Inl (ScanError currentPath))"
| "walkEntries h rootPath relativePath rec currentPath [] bucket = Inr bucket"
| "walkEntries h rootPath relativePath rec currentPath ((name, child) # entries) bucket =
     (let childRelative = (if relativePath \<noteq> [] then path_join [relativePath, name] else name);
          childPath = path_join [currentPath, name]
      in if child = FileNode then
           (if endsWith (toLowerCase name) (toLowerCase (templateExtension h))
            then walkEntries h rootPath relativePath rec currentPath entries
                   (bucket @ [(childPath, childRelative)])
            else walkEntries h rootPath relativePath rec currentPath entries bucket)
         else if isDirectory child \<and> rec then
           (case walkDirectoryForTemplates h rootPath childRelative rec child bucket of
              Inl e \<Rightarrow> Inl e
            | Inr bucket' \<Rightarrow> walkEntries h rootPath relativePath rec currentPath entries bucket')
         else walkEntries h rootPath relativePath rec currentPath entries bucket)"

text \<open>\<^verbatim>\<open>collectTemplatesFromDirectory\<close>: the walk starts at the source directory; a source
  directory that does not exist makes \<^verbatim>\<open>readDirectory\<close> throw.\<close>

definition collectTemplatesFromDirectory ::
  "host \<Rightarrow> DirectoryTransform \<Rightarrow> scanError + (string \<times> string) list" where
  "collectTemplatesFromDirectory h dt =
     (case fs_lookup (fsCaseInsensitive h) (disk h)
             (segments (path_resolve (processCwd h) [sourceDir dt])) of
        None \<Rightarrow> Inl (ScanError (sourceDir dt))
      | Some node \<Rightarrow> walkDirectoryForTemplates h (sourceDir dt) [] (recursive dt) node [])"

definition createDirectoryFileTransform ::
  "host \<Rightarrow> DirectoryTransform \<Rightarrow> string \<Rightarrow> string \<Rightarrow> ui \<Rightarrow> FileTransformEntry option \<times> ui" where
  "createDirectoryFileTransform h dt uri relative u =
     (let normalizedRelative = path_normalize relative;
          ext = templateExtension h
      in if \<not> endsWith (toLowerCase normalizedRelative) (toLowerCase ext) then (None, u)
         else if \<not> recursive dt \<and> js_includes normalizedRelative path_sep then (None, u)
         else
           (let outputRelative = stripNjkExtension h normalizedRelative;
                targetPath = path_join [targetDir dt, outputRelative];
                spec = \<lparr>spec_source = uri, spec_target = targetPath, spec_recursive = None\<rparr>
            in case createFileTransformEntry h spec (workspaceFolder dt) (sourceDir dt) u of
                 (None, u') \<Rightarrow> (None, u')
               | (Some entry, u') \<Rightarrow>
                   (Some (entry\<lparr>description := dirDescription dt @ '' :: '' @ normalizedRelative\<rparr>),
                    u')))"

section \<open>Configuration values\<close>

text \<open>
  What the YAML parser hands to the controller. A finite number is held as the string that
  \<^verbatim>\<open>String(n)\<close> gives for it, the only thing the controller computes from a number, and
  \<open>YNaN\<close> and \<open>YInfinity\<close> are the numbers that are not finite. A mapping is the list of its entries
  in the order \<^verbatim>\<open>Object.entries\<close> gives them. The default YAML schema produces neither
  \<^verbatim>\<open>bigint\<close> values nor \<^verbatim>\<open>vscode.Uri\<close> objects, so \<^verbatim>\<open>coercePath\<close> never meets them.
\<close>

datatype yaml =
    YNull
  | YBool bool
  | YNum string
  | YNaN
  | YInfinity
  | YStr string
  | YSeq "yaml list"
  | YMap "(string \<times> yaml) list"

section \<open>The controller's state\<close>

text \<open>
  The fields of \<^verbatim>\<open>NunjucksController\<close> that the modelled methods read and write. A
  JavaScript \<^verbatim>\<open>Map\<close> is an association list in insertion order: \<^verbatim>\<open>set\<close> on a key that is
  present replaces the value where it stands, \<^verbatim>\<open>set\<close> on a new key appends, which is
  \<^const>\<open>AList.update\<close>. A source watcher is modelled by the path it watches.
\<close>

record controller =
  transforms :: "FileTransformEntry list"
  configFileTransforms :: "FileTransformEntry list"
  directoryTransforms :: "DirectoryTransform list"
  templateTransforms :: "FileTransformEntry list"
  variables :: "(string \<times> yaml) list"
  transformsBySource :: "(string \<times> FileTransformEntry list) list"
  sourceWatchers :: "string list"
  lastTemplateCount :: int
  console :: ui

text \<open>The canonical source path of an entry, the key of every map of the controller.\<close>

abbreviation canonicalSource :: "host \<Rightarrow> FileTransformEntry \<Rightarrow> string" where
  "canonicalSource h t \<equiv> normalizeFsPath h (source t)"

definition mapHas :: "('k \<times> 'v) list \<Rightarrow> 'k \<Rightarrow> bool" where
  "mapHas m k = (map_of m k \<noteq> None)"

definition bySource :: "host \<Rightarrow> FileTransformEntry list \<Rightarrow> (string \<times> FileTransformEntry) list" where
  "bySource h entries =
     fold (\<lambda>entry m. AList.update (normalizeFsPath h (source entry)) entry m) entries []"

definition rebuildTransformsList :: "host \<Rightarrow> controller \<Rightarrow> controller" where
  "rebuildTransformsList h c =
     (let configBySource = bySource h (configFileTransforms c);
          templateBySource =
            fold (\<lambda>entry m.
                    (let key = normalizeFsPath h (source entry)
                     in if \<not> mapHas configBySource key then AList.update key entry m else m))
                 (templateTransforms c) []
      in c\<lparr>transforms := configFileTransforms c @ map snd templateBySource\<rparr>)"

text \<open>\<^verbatim>\<open>rebuildSourceWatchers\<close>: the index from canonical source path to the transforms that
  share it, and one watcher for each key, on the source of the key's first transform. No list
  of the index is empty, so \<^verbatim>\<open>entries[0]\<close> is always there.\<close>

definition rebuildSourceWatchers :: "host \<Rightarrow> controller \<Rightarrow> controller" where
  "rebuildSourceWatchers h c =
     (let index =
            fold (\<lambda>transform m.
                    (let key = normalizeFsPath h (source transform)
                     in case map_of m key of
                          Some existing \<Rightarrow> AList.update key (existing @ [transform]) m
                        | None \<Rightarrow> AList.update key [transform] m))
                 (transforms c) []
      in c\<lparr>transformsBySource := index,
           sourceWatchers := concat (map (\<lambda>(key, entries). map source (take 1 entries)) index)\<rparr>)"

text \<open>\<^verbatim>\<open>Array.prototype.sort\<close> with a comparison function is stable; \<open>le a b\<close> says that
  the comparison of \<open>a\<close> with \<open>b\<close> is not positive.\<close>

fun insertBy :: "('a \<Rightarrow> 'a \<Rightarrow> bool) \<Rightarrow> 'a \<Rightarrow> 'a list \<Rightarrow> 'a list" where
  "insertBy le x [] = [x]"
| "insertBy le x (y # ys) = (if le x y then x # y # ys else y # insertBy le x ys)"

definition sortBy :: "('a \<Rightarrow> 'a \<Rightarrow> bool) \<Rightarrow> 'a list \<Rightarrow> 'a list" where
  "sortBy le xs = foldr (insertBy le) xs []"

text \<open>\<^verbatim>\<open>a.localeCompare(b, undefined, { sensitivity: 'base' }) <= 0\<close> on the host.\<close>

definition localeCompareLe :: "host \<Rightarrow> string \<Rightarrow> string \<Rightarrow> bool" where
  "localeCompareLe h a b = Rep_collation (collator h) a b"

text \<open>\<^verbatim>\<open>String(n)\<close> for the length of an array.\<close>

function showNat :: "nat \<Rightarrow> string" where
  "showNat n = (if n < 10 then [char_of (48 + n)] else showNat (n div 10) @ [char_of (48 + n mod 10)])"
  by pat_completeness auto
termination
  by (relation "measure (\<lambda>n. n)") auto

declare showNat.simps [simp del]

text \<open>The body of the loop of \<^verbatim>\<open>performTemplateReload\<close> over the directory transforms: a
  failed scan is reported and adds nothing; otherwise every template found is turned into an
  entry and stored under its canonical source path.\<close>

definition expandDirectoryTransform ::
  "host \<Rightarrow> DirectoryTransform \<Rightarrow> (string \<times> FileTransformEntry) list \<times> ui
     \<Rightarrow> (string \<times> FileTransformEntry) list \<times> ui" where
  "expandDirectoryTransform h dt acc =
     (case collectTemplatesFromDirectory h dt of
        Inl (ScanError message) \<Rightarrow>
          (fst acc,
           showWarningMessage (''Nunjucksu: cannot access directory '' @ path_basename (sourceDir dt)
                               @ ''. Check permissions.'')
             (appendLine (''Nunjucksu: failed to scan '' @ sourceDir dt @ '': '' @ message) (snd acc)))
      | Inr templates \<Rightarrow>
          fold (\<lambda>(uri, relative) (m, u).
                  (case createDirectoryFileTransform h dt uri relative u of
                     (None, u') \<Rightarrow> (m, u')
                   | (Some entry, u') \<Rightarrow>
                       (AList.update (normalizeFsPath h (source entry)) entry m, u')))
               templates acc)"

definition performTemplateReload :: "host \<Rightarrow> controller \<Rightarrow> controller" where
  "performTemplateReload h c =
     (let snapshotConfigTransforms = configFileTransforms c;
          configTransformsBySource = bySource h snapshotConfigTransforms;
          (directoryTransformMap, u) =
             fold (expandDirectoryTransform h) (directoryTransforms c) ([], console c);
          dynamicTransforms =
             sortBy (\<lambda>a b. localeCompareLe h (source a) (source b))
               (filter (\<lambda>entry. \<not> mapHas configTransformsBySource (normalizeFsPath h (source entry)))
                       (map snd directoryTransformMap));
          c1 = rebuildSourceWatchers h
                 (rebuildTransformsList h (c\<lparr>templateTransforms := dynamicTransforms, console := u\<rparr>))
      in if lastTemplateCount c1 \<noteq> int (length dynamicTransforms) then
           c1\<lparr>console := appendLine (''Nunjucksu: discovered '' @ showNat (length dynamicTransforms)
                                      @ '' .njk template(s) from directory transforms.'') (console c1),
               lastTemplateCount := int (length dynamicTransforms)\<rparr>
         else c1)"

text \<open>\<^verbatim>\<open>findIndex\<close>: the first index whose element passes the test, if there is one.\<close>

fun findIndex :: "('a \<Rightarrow> bool) \<Rightarrow> 'a list \<Rightarrow> nat option" where
  "findIndex P [] = None"
| "findIndex P (x # xs) =
     (if P x then Some 0 else (case findIndex P xs of None \<Rightarrow> None | Some i \<Rightarrow> Some (Suc i)))"

text \<open>\<^verbatim>\<open>handleTemplateChange\<close>: the loop over the directory transforms stops at the first one
  that yields an entry for the changed template.\<close>

fun handleTemplateChangeLoop ::
  "host \<Rightarrow> string \<Rightarrow> DirectoryTransform list \<Rightarrow> controller \<Rightarrow> controller" where
  "handleTemplateChangeLoop h uri [] c = c"
| "handleTemplateChangeLoop h uri (dirTransform # rest) c =
     (let key = normalizeFsPath h uri;
          relativePath = path_relative (processCwd h) (sourceDir dirTransform) uri
      in if \<not> startsWith relativePath ''..'' \<and> \<not> path_isAbsolute relativePath then
           (case createDirectoryFileTransform h dirTransform uri relativePath (console c) of
              (Some entry, u) \<Rightarrow>
                (let tts =
                       (case findIndex (\<lambda>t. normalizeFsPath h (source t) = key) (templateTransforms c) of
                          Some existingIndex \<Rightarrow> (templateTransforms c)[existingIndex := entry]
                        | None \<Rightarrow> templateTransforms c @ [entry])
                 in rebuildSourceWatchers h
                      (rebuildTransformsList h (c\<lparr>templateTransforms := tts, console := u\<rparr>)))
            | (None, u) \<Rightarrow> handleTemplateChangeLoop h uri rest (c\<lparr>console := u\<rparr>))
         else handleTemplateChangeLoop h uri rest c)"

definition handleTemplateChange :: "host \<Rightarrow> string \<Rightarrow> controller \<Rightarrow> controller" where
  "handleTemplateChange h uri c = handleTemplateChangeLoop h uri (directoryTransforms c) c"

definition handleTemplateDelete :: "host \<Rightarrow> string \<Rightarrow> controller \<Rightarrow> controller" where
  "handleTemplateDelete h uri c =
     (let key = normalizeFsPath h uri;
          initialLength = length (templateTransforms c);
          c1 = c\<lparr>templateTransforms :=
                   filter (\<lambda>t. normalizeFsPath h (source t) \<noteq> key) (templateTransforms c)\<rparr>
      in if length (templateTransforms c1) \<noteq> initialLength
         then rebuildSourceWatchers h (rebuildTransformsList h c1)
         else c1)"

section \<open>Directory expansion in the specification's words\<close>

text \<open>A name that \<^verbatim>\<open>readDirectory\<close> can list: not empty, without a separator, and neither
  \<^verbatim>\<open>.\<close> nor \<^verbatim>\<open>..\<close>.\<close>

definition validName :: "string \<Rightarrow> bool" where
  "validName name = (name \<noteq> [] \<and> name \<noteq> ''.'' \<and> name \<noteq> ''..'' \<and> CHR ''/'' \<notin> set name)"

text \<open>A tree that a walk can read: every name is valid and, when the walk is recursive,
  every directory below the root can be listed.\<close>

fun readableTree :: "bool \<Rightarrow> fsnode \<Rightarrow> bool"
  and readableEntries :: "bool \<Rightarrow> (string \<times> fsnode) list \<Rightarrow> bool" where
  "readableTree rec (DirNode entries) = readableEntries rec entries"
| "readableTree rec FileNode = False"
| "readableTree rec UnreadableDir = False"
| "readableTree rec OtherNode = False"
| "readableTree rec BrokenLink = False"
| "readableEntries rec [] = True"
| "readableEntries rec ((name, child) # entries) =
     (validName name \<and> (if rec \<and> isDirectory child then readableTree rec child else True)
      \<and> readableEntries rec entries)"

text \<open>The regular files under a directory, each as the list of names that leads to it: the
  whole subtree when \<open>rec\<close> holds, the direct children otherwise.\<close>

fun filesUnder :: "bool \<Rightarrow> fsnode \<Rightarrow> string list list"
  and filesIn :: "bool \<Rightarrow> (string \<times> fsnode) list \<Rightarrow> string list list" where
  "filesUnder rec (DirNode entries) = filesIn rec entries"
| "filesUnder rec FileNode = []"
| "filesUnder rec UnreadableDir = []"
| "filesUnder rec OtherNode = []"
| "filesUnder rec BrokenLink = []"
| "filesIn rec [] = []"
| "filesIn rec ((name, child) # entries) =
     (if child = FileNode then [[name]]
      else if rec then map (\<lambda>segs. name # segs) (filesUnder rec child)
      else [])
     @ filesIn rec entries"

definition isTemplateName :: "host \<Rightarrow> string \<Rightarrow> bool" where
  "isTemplateName h name = endsWith (toLowerCase name) (toLowerCase (templateExtension h))"

text \<open>The templates the specification asks for: the files under the source directory whose
  names end with the template extension, each with its path relative to the source
  directory.\<close>

definition templatesUnder :: "host \<Rightarrow> DirectoryTransform \<Rightarrow> fsnode \<Rightarrow> (string \<times> string) list" where
  "templatesUnder h dt node =
     map (\<lambda>segs. (path_join [sourceDir dt, js_join ''/'' segs], js_join ''/'' segs))
         (filter (\<lambda>segs. isTemplateName h (last segs)) (filesUnder (recursive dt) node))"

text \<open>The segments of an absolute path after normalisation.\<close>

definition rootSegs :: "string \<Rightarrow> string list" where
  "rootSegs r = normSegs False (js_split CHR ''/'' r) []"

text \<open>The templates among the given files, below the directory reached from \<open>root\<close> by the
  names \<open>ps\<close>.\<close>

abbreviation foundTemplates :: "host \<Rightarrow> string \<Rightarrow> string list \<Rightarrow> string list list \<Rightarrow> (string \<times> string) list" where
  "foundTemplates h root ps files \<equiv>
     map (\<lambda>segs. (path_join [root, js_join ''/'' (ps @ segs)], js_join ''/'' (ps @ segs)))
         (filter (\<lambda>segs. isTemplateName h (last segs)) files)"

section \<open>Reading a configuration file\<close>

definition isPlainObject :: "yaml \<Rightarrow> bool" where
  "isPlainObject v = (case v of YMap _ \<Rightarrow> True | _ \<Rightarrow> False)"

text \<open>A property of a value that may not be an object: \<^verbatim>\<open>undefined\<close> is \<open>None\<close>.\<close>

definition getProp :: "yaml \<Rightarrow> string \<Rightarrow> yaml option" where
  "getProp v name = (case v of YMap entries \<Rightarrow> map_of entries name | _ \<Rightarrow> None)"

definition coercePath :: "yaml option \<Rightarrow> string option" where
  "coercePath v =
     (case v of
        Some (YStr s) \<Rightarrow> Some s
      | Some (YNum s) \<Rightarrow> Some s
      | _ \<Rightarrow> None)"

text \<open>The test \<^verbatim>\<open>if (s)\<close> on a string that may be undefined.\<close>

definition truthy :: "string option \<Rightarrow> bool" where
  "truthy s = (s \<noteq> None \<and> s \<noteq> Some [])"

text \<open>The test \<^verbatim>\<open>if (!raw)\<close> on a parsed value: \<^verbatim>\<open>undefined\<close>, \<^verbatim>\<open>null\<close>, \<^verbatim>\<open>false\<close>, zero,
  \<^verbatim>\<open>NaN\<close> and the empty string are falsy.\<close>

definition falsy :: "yaml option \<Rightarrow> bool" where
  "falsy raw =
     (case raw of
        None \<Rightarrow> True
      | Some YNull \<Rightarrow> True
      | Some (YBool b) \<Rightarrow> \<not> b
      | Some (YNum s) \<Rightarrow> s = ''0''
      | Some YNaN \<Rightarrow> True
      | Some (YStr s) \<Rightarrow> s = []
      | _ \<Rightarrow> False)"

definition recursiveFlag :: "yaml \<Rightarrow> bool option" where
  "recursiveFlag v = (case getProp v ''recursive'' of Some (YBool b) \<Rightarrow> Some b | _ \<Rightarrow> None)"

definition normalizeTransform :: "yaml \<Rightarrow> TransformSpec option" where
  "normalizeTransform entry =
     (if \<not> isPlainObject entry then None
      else
        (let src = coercePath (getProp entry ''source'');
             tgt = coercePath (getProp entry ''target'')
         in case (src, tgt) of
              (Some s, Some t) \<Rightarrow>
                (if s = [] \<or> t = [] then None
                 else Some \<lparr>spec_source = s, spec_target = t, spec_recursive = recursiveFlag entry\<rparr>)
            | _ \<Rightarrow> None))"

text \<open>The loop of \<^verbatim>\<open>extractTransformSpecs\<close> over the entries of a sequence.\<close>

fun specsOfSequence :: "string \<Rightarrow> yaml list \<Rightarrow> TransformSpec list \<times> ui \<Rightarrow> TransformSpec list \<times> ui" where
  "specsOfSequence configPath [] acc = acc"
| "specsOfSequence configPath (entry # entries) (specs, u) =
     (case normalizeTransform entry of
        Some normalized \<Rightarrow> specsOfSequence configPath entries (specs @ [normalized], u)
      | None \<Rightarrow>
          specsOfSequence configPath entries
            (specs, appendLine (''Nunjucksu: skipped invalid transform entry in '' @ configPath @ ''.'') u))"

text \<open>The loop of \<^verbatim>\<open>extractTransformSpecs\<close> over the entries of a mapping from source to
  target.\<close>

fun specsOfMapping ::
  "string \<Rightarrow> (string \<times> yaml) list \<Rightarrow> TransformSpec list \<times> ui \<Rightarrow> TransformSpec list \<times> ui" where
  "specsOfMapping configPath [] acc = acc"
| "specsOfMapping configPath ((sourceKey, targetSpec) # entries) (specs, u) =
     (let directTarget = coercePath (Some targetSpec)
      in if truthy directTarget then
           specsOfMapping configPath entries
             (specs @ [\<lparr>spec_source = sourceKey,
                         spec_target = (case directTarget of Some t \<Rightarrow> t | None \<Rightarrow> []),
                         spec_recursive = None\<rparr>], u)
         else
           (let targetPath = coercePath (getProp targetSpec ''target'')
            in if isPlainObject targetSpec \<and> truthy targetPath then
                 specsOfMapping configPath entries
                   (specs @ [\<lparr>spec_source =
                                (case coercePath (getProp targetSpec ''source'') of
                                   Some s \<Rightarrow> s | None \<Rightarrow> sourceKey),
                              spec_target = (case targetPath of Some t \<Rightarrow> t | None \<Rightarrow> []),
                              spec_recursive = recursiveFlag targetSpec\<rparr>], u)
               else
                 specsOfMapping configPath entries
                   (specs,
                    appendLine (''Nunjucksu: transform '' @ [CHR 0x27] @ sourceKey @ [CHR 0x27]
                                @ '' in '' @ configPath
                                @ '' is invalid and was ignored.'') u)))"

definition extractTransformSpecs :: "yaml option \<Rightarrow> string \<Rightarrow> ui \<Rightarrow> TransformSpec list \<times> ui" where
  "extractTransformSpecs raw configPath u =
     (if falsy raw then ([], u)
      else
        (case raw of
           Some (YSeq entries) \<Rightarrow> specsOfSequence configPath entries ([], u)
         | Some (YMap record) \<Rightarrow>
             (let singleSource = coercePath (map_of record ''source'');
                  singleTarget = coercePath (map_of record ''target'')
              in if truthy singleSource \<and> truthy singleTarget then
                   ([\<lparr>spec_source = (case singleSource of Some s \<Rightarrow> s | None \<Rightarrow> []),
                      spec_target = (case singleTarget of Some t \<Rightarrow> t | None \<Rightarrow> []),
                      spec_recursive = recursiveFlag (YMap record)\<rparr>], u)
                 else specsOfMapping configPath record ([], u))
         | _ \<Rightarrow>
             ([], appendLine (''Nunjucksu: transforms section in '' @ configPath
                              @ '' must be an array or mapping.'') u)))"

definition extractVars :: "yaml option \<Rightarrow> (string \<times> yaml) list" where
  "extractVars raw = (case raw of Some (YMap entries) \<Rightarrow> entries | _ \<Rightarrow> [])"

text \<open>
  What \<^verbatim>\<open>readFile\<close> and the YAML parser make of a configuration file: the read fails, the
  parser throws, or there is a document (\<open>YNull\<close> for an empty one). A configuration file
  comes with its path and with the workspace folder that \<^verbatim>\<open>getWorkspaceFolder\<close> (or, failing
  that, the first workspace folder) gives for it.
\<close>

datatype configSource = ReadFailed string | ParseFailed string | Document yaml

record configFile =
  cfgPath :: string
  cfgWorkspace :: "string option"
  cfgSource :: configSource

record configResult =
  vars :: "(string \<times> yaml) list"
  fileTransforms :: "FileTransformEntry list"
  dirTransforms :: "DirectoryTransform list"

text \<open>The loop of \<^verbatim>\<open>readConfig\<close> over the specifications of one file.\<close>

fun resolveSpecs ::
  "host \<Rightarrow> string option \<Rightarrow> string \<Rightarrow> TransformSpec list
     \<Rightarrow> FileTransformEntry list \<times> DirectoryTransform list \<times> ui
     \<Rightarrow> FileTransformEntry list \<times> DirectoryTransform list \<times> ui" where
  "resolveSpecs h wsFolder configDir [] acc = acc"
| "resolveSpecs h wsFolder configDir (spec # specs) (fts, dts, u) =
     (if spec_recursive spec \<noteq> None then
        (case createDirectoryTransform h spec wsFolder configDir of
           Some directoryEntry \<Rightarrow> resolveSpecs h wsFolder configDir specs (fts, dts @ [directoryEntry], u)
         | None \<Rightarrow> resolveSpecs h wsFolder configDir specs (fts, dts, u))
      else
        (case createFileTransformEntry h spec wsFolder configDir u of
           (Some entry, u') \<Rightarrow> resolveSpecs h wsFolder configDir specs (fts @ [entry], dts, u')
         | (None, u') \<Rightarrow> resolveSpecs h wsFolder configDir specs (fts, dts, u')))"

text \<open>\<^verbatim>\<open>readConfig\<close>: \<open>Inl\<close> carries the message of the exception. The exceptions are thrown
  before anything is written to the output channel.\<close>

definition readConfig :: "host \<Rightarrow> configFile \<Rightarrow> ui \<Rightarrow> string + (configResult \<times> ui)" where
  "readConfig h file u =
     (case cfgSource file of
        ReadFailed message \<Rightarrow> Inl message
      | ParseFailed message \<Rightarrow> Inl message
      | Document doc \<Rightarrow>
          (let parsed = (if doc = YNull then YMap [] else doc)
           in if \<not> isPlainObject parsed then Inl ''Configuration root must be a mapping.''
              else
                (let vs = extractVars (getProp parsed ''vars'');
                     (specs, u1) = extractTransformSpecs (getProp parsed ''transforms'') (cfgPath file) u;
                     configDir = path_dirname (cfgPath file);
                     (fts, dts, u2) = resolveSpecs h (cfgWorkspace file) configDir specs ([], [], u1)
                 in Inr (\<lparr>vars = vs, fileTransforms = fts, dirTransforms = dts\<rparr>, u2))))"

section \<open>Cycle detection\<close>

text \<open>
  The three sets of \<^verbatim>\<open>detectAndRemoveCycles\<close> that the closure \<^verbatim>\<open>hasCycle\<close> updates.
\<close>

record dfs =
  visited :: "string set"
  recursionStack :: "string set"
  cycleNodes :: "string set"

definition neighborsOf :: "(string \<times> string list) list \<Rightarrow> string \<Rightarrow> string list" where
  "neighborsOf graph node = (case map_of graph node of Some ns \<Rightarrow> ns | None \<Rightarrow> [])"

text \<open>
  \<^verbatim>\<open>hasCycle\<close>, with the loop over the neighbours as \<open>hasCycleLoop\<close>. JavaScript bounds the
  depth of the recursion by its call stack; here the depth is bounded by the first argument,
  and \<open>None\<close> says that the bound was reached. Note the two \<^verbatim>\<open>return true\<close>: they leave
  the node on the recursion stack.
\<close>

fun hasCycle :: "nat \<Rightarrow> (string \<times> string list) list \<Rightarrow> string \<Rightarrow> dfs \<Rightarrow> (bool \<times> dfs) option"
  and hasCycleLoop ::
    "nat \<Rightarrow> (string \<times> string list) list \<Rightarrow> string \<Rightarrow> string list \<Rightarrow> dfs \<Rightarrow> (bool \<times> dfs) option"
  where
  "hasCycle 0 graph node s = None"
| "hasCycle (Suc depth) graph node s =
     (if node \<in> recursionStack s then Some (True, s\<lparr>cycleNodes := insert node (cycleNodes s)\<rparr>)
      else if node \<in> visited s then Some (False, s)
      else hasCycleLoop depth graph node (neighborsOf graph node)
             (s\<lparr>visited := insert node (visited s),
                recursionStack := insert node (recursionStack s)\<rparr>))"
| "hasCycleLoop depth graph node [] s =
     Some (False, s\<lparr>recursionStack := recursionStack s - {node}\<rparr>)"
| "hasCycleLoop depth graph node (neighbor # neighbors) s =
     (case hasCycle depth graph neighbor s of
        None \<Rightarrow> None
      | Some (True, s') \<Rightarrow> Some (True, s'\<lparr>cycleNodes := insert node (cycleNodes s')\<rparr>)
      | Some (False, s') \<Rightarrow> hasCycleLoop depth graph node neighbors s')"

text \<open>The adjacency list from source to targets, in insertion order.\<close>

definition buildGraph :: "host \<Rightarrow> FileTransformEntry list \<Rightarrow> (string \<times> string list) list" where
  "buildGraph h ts =
     fold (\<lambda>transform graph.
             (let sourceKey = normalizeFsPath h (source transform);
                  targetKey = normalizeFsPath h (target transform);
                  g = (if \<not> mapHas graph sourceKey then AList.update sourceKey [] graph else graph)
              in AList.update sourceKey (neighborsOf g sourceKey @ [targetKey]) g))
          ts []"

text \<open>The loop \<^verbatim>\<open>for (const node of graph.keys()) hasCycle(node)\<close>.\<close>

fun checkAllNodes :: "nat \<Rightarrow> (string \<times> string list) list \<Rightarrow> string list \<Rightarrow> dfs \<Rightarrow> dfs option" where
  "checkAllNodes depth graph [] s = Some s"
| "checkAllNodes depth graph (node # nodes) s =
     (case hasCycle depth graph node s of
        None \<Rightarrow> None
      | Some (r, s') \<Rightarrow> checkAllNodes depth graph nodes s')"

text \<open>The filter at the end of \<^verbatim>\<open>detectAndRemoveCycles\<close>, with its report of every removal.\<close>

fun removeCycleTransforms ::
  "host \<Rightarrow> string set \<Rightarrow> FileTransformEntry list \<Rightarrow> ui \<Rightarrow> FileTransformEntry list \<times> ui" where
  "removeCycleTransforms h cyc [] u = ([], u)"
| "removeCycleTransforms h cyc (transform # ts) u =
     (if normalizeFsPath h (source transform) \<in> cyc \<or> normalizeFsPath h (target transform) \<in> cyc
      then removeCycleTransforms h cyc ts
             (showWarningMessage (''Nunjucksu: cycle detected in transforms involving ''
                                  @ path_basename (source transform))
                (appendLine (''Nunjucksu: removed transform '' @ description transform
                             @ '' (part of cycle)'') u))
      else (case removeCycleTransforms h cyc ts u of (kept, u') \<Rightarrow> (transform # kept, u')))"

text \<open>The nodes of the graph, and a depth that no traversal of it reaches: every nested call
  of \<^verbatim>\<open>hasCycle\<close> but the innermost visits a node not visited before.\<close>

definition graphNodes :: "(string \<times> string list) list \<Rightarrow> string list" where
  "graphNodes graph = map fst graph @ concat (map snd graph)"

definition detectAndRemoveCycles ::
  "host \<Rightarrow> FileTransformEntry list \<Rightarrow> ui \<Rightarrow> (FileTransformEntry list \<times> ui) option" where
  "detectAndRemoveCycles h ts u =
     (let graph = buildGraph h ts
      in case checkAllNodes (Suc (length (graphNodes graph))) graph (map fst graph)
                \<lparr>visited = {}, recursionStack = {}, cycleNodes = {}\<rparr> of
           None \<Rightarrow> None
         | Some s \<Rightarrow> Some (removeCycleTransforms h (cycleNodes s) ts u))"

section \<open>Cycles in the specification's words\<close>

text \<open>The edges of the graph of canonical source and target paths, and the nodes that lie
  on a directed cycle of it (a self-loop is a cycle of length one).\<close>

definition edgesOf :: "host \<Rightarrow> FileTransformEntry list \<Rightarrow> (string \<times> string) list" where
  "edgesOf h ts = map (\<lambda>t. (normalizeFsPath h (source t), normalizeFsPath h (target t))) ts"

definition onCycle :: "(string \<times> string) list \<Rightarrow> string \<Rightarrow> bool" where
  "onCycle es n = ((n, n) \<in> (set es)\<^sup>+)"

text \<open>What the specification asks of cycle detection: the transforms that touch no node of a
  cycle, unchanged and in their order.\<close>

definition outsideCycles :: "host \<Rightarrow> FileTransformEntry list \<Rightarrow> FileTransformEntry list" where
  "outsideCycles h ts =
     filter (\<lambda>t. \<not> onCycle (edgesOf h ts) (normalizeFsPath h (source t)) \<and>
                 \<not> onCycle (edgesOf h ts) (normalizeFsPath h (target t))) ts"

section \<open>Reloading the configuration\<close>

text \<open>
  \<^verbatim>\<open>Object.assign(mergedVars, vars)\<close>: every own key of \<open>vars\<close> is set on \<open>mergedVars\<close>, in
  order, and a value is stored whole, whatever it is. The key \<^verbatim>\<open>__proto__\<close> is the exception
  of the language: setting it calls the setter that every object inherits, which changes the
  prototype of \<open>mergedVars\<close> and adds no key to it. The variables are read through
  \<^verbatim>\<open>{ ...this.variables }\<close>, which copies own keys only, so the list of own keys is all
  that is kept here.
\<close>

definition objectAssign :: "(string \<times> yaml) list \<Rightarrow> (string \<times> yaml) list \<Rightarrow> (string \<times> yaml) list" where
  "objectAssign mergedVars vs =
     fold (\<lambda>(k, v) m. if k = ''__proto__'' then m else AList.update k v m) vs mergedVars"

record gathered =
  mergedVars :: "(string \<times> yaml) list"
  gatheredFileTransforms :: "FileTransformEntry list"
  gatheredDirectoryTransforms :: "DirectoryTransform list"
  gatherUi :: ui

text \<open>The body of the loop of \<^verbatim>\<open>performReload\<close> over the configuration files: a file
  that cannot be read is reported and contributes nothing.\<close>

definition loadConfig :: "host \<Rightarrow> configFile \<Rightarrow> gathered \<Rightarrow> gathered" where
  "loadConfig h file g =
     (case readConfig h file (gatherUi g) of
        Inr (r, u) \<Rightarrow>
          \<lparr>mergedVars = objectAssign (mergedVars g) (vars r),
           gatheredFileTransforms = gatheredFileTransforms g @ fileTransforms r,
           gatheredDirectoryTransforms = gatheredDirectoryTransforms g @ dirTransforms r,
           gatherUi = u\<rparr>
      | Inl message \<Rightarrow>
          g\<lparr>gatherUi :=
               showWarningMessage (''Nunjucksu: unable to read '' @ path_basename (cfgPath file)
                                   @ ''. Check the output channel for details.'')
                 (appendLine (''Nunjucksu: failed to load '' @ cfgPath file @ '': '' @ message)
                    (gatherUi g))\<rparr>)"

definition sortConfigs :: "host \<Rightarrow> configFile list \<Rightarrow> configFile list" where
  "sortConfigs h files = sortBy (\<lambda>a b. localeCompareLe h (cfgPath a) (cfgPath b)) files"

text \<open>The order of the specification's words: lexicographic, letter case ignored, that is,
  the order of the lower-case forms of two paths, compared one code unit after the
  other.\<close>

fun lexicographicLe :: "string \<Rightarrow> string \<Rightarrow> bool" where
  "lexicographicLe [] b = True"
| "lexicographicLe (x # xs) [] = False"
| "lexicographicLe (x # xs) (y # ys) =
     (let m = (of_char (lower_char x) :: nat); n = (of_char (lower_char y) :: nat)
      in m < n \<or> (m = n \<and> lexicographicLe xs ys))"

definition gatherConfigs :: "host \<Rightarrow> configFile list \<Rightarrow> ui \<Rightarrow> gathered" where
  "gatherConfigs h files u =
     fold (loadConfig h) (sortConfigs h files)
       \<lparr>mergedVars = [], gatheredFileTransforms = [], gatheredDirectoryTransforms = [],
        gatherUi = (if files = []
                    then log h ''Nunjucksu: no .njk.yaml configuration files were found.'' Verbose u
                    else u)\<rparr>"

text \<open>\<^verbatim>\<open>performReload\<close>, given the configuration files that \<^verbatim>\<open>findFiles\<close> returns. The
  result is \<open>None\<close> only if the cycle detection runs out of depth.\<close>

definition performReload :: "host \<Rightarrow> configFile list \<Rightarrow> controller \<Rightarrow> controller option" where
  "performReload h files c =
     (let g = gatherConfigs h files (console c)
      in case detectAndRemoveCycles h (gatheredFileTransforms g) (gatherUi g) of
           None \<Rightarrow> None
         | Some (filteredTransforms, u) \<Rightarrow>
             (let u' = (if files \<noteq> [] then
                          log h (''Nunjucksu: loaded '' @ showNat (length (gatheredFileTransforms g))
                                 @ '' file transform(s) and ''
                                 @ showNat (length (gatheredDirectoryTransforms g))
                                 @ '' directory transform(s) from '' @ showNat (length files)
                                 @ '' config file(s).'') Verbose u
                        else u)
              in Some (performTemplateReload h
                         (c\<lparr>variables := mergedVars g,
                            configFileTransforms := filteredTransforms,
                            directoryTransforms := gatheredDirectoryTransforms g,
                            console := u'\<rparr>))))"

section \<open>The merge in the specification's words\<close>

text \<open>The variables a configuration file contributes: the entries of the mapping under
  \<^verbatim>\<open>vars\<close> when the root of the document is a mapping, and nothing otherwise.\<close>

definition configVars :: "configFile \<Rightarrow> (string \<times> yaml) list" where
  "configVars file =
     (case cfgSource file of
        Document (YMap entries) \<Rightarrow> (case map_of entries ''vars'' of Some (YMap vs) \<Rightarrow> vs | _ \<Rightarrow> [])
      | _ \<Rightarrow> [])"

text \<open>A configuration file fails to load when it cannot be read, when the parser rejects
  it, or when its root is not a mapping; the message is the one the output channel
  reports.\<close>

definition failsToLoad :: "configFile \<Rightarrow> bool" where
  "failsToLoad file =
     (case cfgSource file of
        Document doc \<Rightarrow> doc \<noteq> YNull \<and> \<not> isPlainObject doc
      | _ \<Rightarrow> True)"

definition failureMessage :: "configFile \<Rightarrow> string" where
  "failureMessage file =
     (case cfgSource file of
        ReadFailed message \<Rightarrow> message
      | ParseFailed message \<Rightarrow> message
      | Document doc \<Rightarrow> ''Configuration root must be a mapping.'')"

text \<open>What the loop over the configuration files has gathered, without the output channel.\<close>

definition gatheredData ::
  "gathered \<Rightarrow> (string \<times> yaml) list \<times> FileTransformEntry list \<times> DirectoryTransform list" where
  "gatheredData g = (mergedVars g, gatheredFileTransforms g, gatheredDirectoryTransforms g)"

text \<open>The output channel only grows: \<open>u'\<close> holds the lines of \<open>u\<close> and then, perhaps, more.\<close>

definition grows :: "ui \<Rightarrow> ui \<Rightarrow> bool" where
  "grows u u' = prefix (outputLines u) (outputLines u')"

definition failedToLoadLine :: "configFile \<Rightarrow> string" where
  "failedToLoadLine file =
     ''Nunjucksu: failed to load '' @ cfgPath file @ '': '' @ failureMessage file"

section \<open>Rendering and writing a target\<close>

text \<open>
  \<^verbatim>\<open>Buffer.from(contents, 'utf8')\<close> on the modelled strings: a code point below 128 is one
  byte, a code point from 128 to 255 is two.
\<close>

type_synonym bytes = "nat list"

definition utf8 :: "string \<Rightarrow> bytes" where
  "utf8 s =
     concat (map (\<lambda>c. (let n = (of_char c :: nat)
                       in if n < 128 then [n] else [192 + n div 64, 128 + n mod 64])) s)"

text \<open>
  The part of the file system that \<^verbatim>\<open>vscode.workspace.fs\<close> writes: the directories, the
  contents of the files, the paths that cannot be written, and the calls made so far, in
  order. \<^verbatim>\<open>createDirectory\<close> creates the missing parents as well and fails when a file is in
  the way; \<^verbatim>\<open>readFile\<close> fails when there is no file at the path; \<^verbatim>\<open>writeFile\<close> fails on a
  directory and on a path that cannot be written.
\<close>

datatype fsCall = CreateDirectory string | ReadFile string | WriteFile string bytes

datatype fsError = FileExists string | FileNotFound string | FileIsADirectory string
  | NoPermissions string

record store =
  dirs :: "string set"
  fileContents :: "string \<rightharpoonup> bytes"
  readOnly :: "string set"
  calls :: "fsCall list"

definition ancestorDirs :: "string \<Rightarrow> string list" where
  "ancestorDirs p =
     map (\<lambda>k. ''/'' @ js_join ''/'' (take k (segments p))) [0 ..< Suc (length (segments p))]"

definition createDirectory :: "string \<Rightarrow> store \<Rightarrow> fsError option \<times> store" where
  "createDirectory p st =
     (let st1 = st\<lparr>calls := calls st @ [CreateDirectory p]\<rparr>
      in if list_ex (\<lambda>q. fileContents st q \<noteq> None) (ancestorDirs p) then (Some (FileExists p), st1)
         else (None, st1\<lparr>dirs := dirs st \<union> set (ancestorDirs p)\<rparr>))"

definition readFile :: "string \<Rightarrow> store \<Rightarrow> (fsError + bytes) \<times> store" where
  "readFile p st =
     (let st1 = st\<lparr>calls := calls st @ [ReadFile p]\<rparr>
      in case fileContents st p of
           None \<Rightarrow> (Inl (FileNotFound p), st1)
         | Some b \<Rightarrow> (Inr b, st1))"

definition writeFile :: "string \<Rightarrow> bytes \<Rightarrow> store \<Rightarrow> fsError option \<times> store" where
  "writeFile p b st =
     (let st1 = st\<lparr>calls := calls st @ [WriteFile p b]\<rparr>
      in if p \<in> dirs st then (Some (FileIsADirectory p), st1)
         else if p \<in> readOnly st then (Some (NoPermissions p), st1)
         else (None, st1\<lparr>fileContents := (fileContents st)(p \<mapsto> b)\<rparr>))"

text \<open>
  \<^verbatim>\<open>writeTarget\<close>. The result is \<open>None\<close> when the promise resolves and the error when it
  rejects. An error of \<^verbatim>\<open>createDirectory\<close> or \<^verbatim>\<open>writeFile\<close> rejects it; an error of
  \<^verbatim>\<open>readFile\<close> is caught and the file is written.
\<close>

definition writeTarget :: "string \<Rightarrow> string \<Rightarrow> store \<Rightarrow> fsError option \<times> store" where
  "writeTarget uri contents st =
     (let directory = path_dirname uri
      in case createDirectory directory st of
           (Some e, st1) \<Rightarrow> (Some e, st1)
         | (None, st1) \<Rightarrow>
             (let next = utf8 contents
              in case readFile uri st1 of
                   (Inr current, st2) \<Rightarrow> (if current = next then (None, st2) else writeFile uri next st2)
                 | (Inl e, st2) \<Rightarrow> writeFile uri next st2))"

text \<open>The number of \<^verbatim>\<open>writeFile\<close> calls among the calls of a store.\<close>

definition writeCalls :: "store \<Rightarrow> nat" where
  "writeCalls st = length (filter (\<lambda>c. case c of WriteFile p b \<Rightarrow> True | _ \<Rightarrow> False) (calls st))"

text \<open>
  \<^verbatim>\<open>renderTemplate\<close> hands the template name, the search paths and a copy of the variables to
  Nunjucks, which is outside the repository: \<open>render\<close> is that call, with the message of the
  error or the text produced (the empty string when Nunjucks gives none).
  \<^verbatim>\<open>renderTransform\<close> renders, writes and reports; it catches every error.
\<close>

definition showError :: "fsError \<Rightarrow> string" where
  "showError e =
     (case e of
        FileExists p \<Rightarrow> ''FileExists: '' @ p
      | FileNotFound p \<Rightarrow> ''FileNotFound: '' @ p
      | FileIsADirectory p \<Rightarrow> ''FileIsADirectory: '' @ p
      | NoPermissions p \<Rightarrow> ''NoPermissions: '' @ p)"

definition renderFailed :: "FileTransformEntry \<Rightarrow> string \<Rightarrow> ui \<Rightarrow> ui" where
  "renderFailed transform message u =
     showWarningMessage (''Nunjucksu: failed to render '' @ path_basename (target transform)
                         @ ''. See output for details.'')
       (appendLine (''Nunjucksu: failed to render '' @ description transform @ '': '' @ message) u)"

definition renderTransform ::
  "host \<Rightarrow> (string \<Rightarrow> string list \<Rightarrow> (string \<times> yaml) list \<Rightarrow> string + string)
     \<Rightarrow> (string \<times> yaml) list \<Rightarrow> FileTransformEntry \<Rightarrow> string \<Rightarrow> store \<times> ui \<Rightarrow> store \<times> ui" where
  "renderTransform h render vs transform reason acc =
     (case render (templateName transform) (searchPaths transform) vs of
        Inl message \<Rightarrow> (fst acc, renderFailed transform message (snd acc))
      | Inr out \<Rightarrow>
          (case writeTarget (target transform) out (fst acc) of
             (Some e, st) \<Rightarrow> (st, renderFailed transform (showError e) (snd acc))
           | (None, st) \<Rightarrow>
               (st, log h (''Nunjucksu: rendered '' @ description transform @ '' ('' @ reason @ '').'')
                      Normal (snd acc))))"

text \<open>\<^verbatim>\<open>renderAll\<close>: every active transform in the order of the list, or a notice when
  there is none.\<close>

definition renderAll ::
  "host \<Rightarrow> (string \<Rightarrow> string list \<Rightarrow> (string \<times> yaml) list \<Rightarrow> string + string)
     \<Rightarrow> controller \<Rightarrow> store \<Rightarrow> store \<times> controller" where
  "renderAll h render c st =
     (if transforms c = [] then
        (st, c\<lparr>console := showInformationMessage ''Nunjucksu: no transforms are configured.'' (console c)\<rparr>)
      else
        (case fold (\<lambda>transform. renderTransform h render (variables c) transform ''manual'')
                (transforms c) (st, console c) of
           (st', u) \<Rightarrow> (st', c\<lparr>console := u\<rparr>)))"

section \<open>The render scheduler\<close>

text \<open>
  \<^verbatim>\<open>handleSourceEvent\<close> builds, for every event, a promise that runs the transforms of the
  source one after the other once the promise found in \<^verbatim>\<open>renderQueue\<close> under the same key
  has settled (\<^verbatim>\<open>previous.catch(...).then(run)\<close>), and that removes itself from the two maps
  when it is still the one stored there (\<^verbatim>\<open>finally\<close>). Such a promise is a unit of work: its
  key, the transforms recorded at the event, the unit it waits for, and how far it has come.
  A unit is named by its position in the list of all units, in the order of the events.
\<close>

datatype phase = Waiting | Running nat | Settled

record renderUnit =
  unitKey :: string
  unitTransforms :: "FileTransformEntry list"
  unitReason :: string
  unitPrevious :: "nat option"
  unitPhase :: phase

text \<open>\<open>rendered\<close> lists the calls of \<^verbatim>\<open>renderTransform\<close> in the order they are made, each with
  the unit that made it.\<close>

record scheduler =
  units :: "renderUnit list"
  renderQueue :: "(string \<times> nat) list"
  renderTimestamps :: "(string \<times> int) list"
  rendered :: "(nat \<times> FileTransformEntry) list"
  schedulerUi :: ui

definition RENDER_TIMEOUT_MS :: int where
  "RENDER_TIMEOUT_MS = 30000"


definition staleKeys :: "int \<Rightarrow> scheduler \<Rightarrow> string list" where
  "staleKeys now s =
     map fst (filter (\<lambda>(key, timestamp). now - timestamp > RENDER_TIMEOUT_MS) (renderTimestamps s))"

definition cleanupStaleRenders :: "host \<Rightarrow> int \<Rightarrow> scheduler \<Rightarrow> scheduler" where
  "cleanupStaleRenders h now s =
     fold (\<lambda>key s'. s'\<lparr>renderQueue := AList.delete key (renderQueue s'),
                       renderTimestamps := AList.delete key (renderTimestamps s'),
                       schedulerUi := log h (''Nunjucksu: cleaned up stale render for '' @ key)
                                        Verbose (schedulerUi s')\<rparr>)
          (staleKeys now s) s"

text \<open>
  The steps the JavaScript runtime takes with a unit. It starts \<^verbatim>\<open>run\<close> when the promise
  the unit waits for has settled; \<^verbatim>\<open>run\<close> calls \<^verbatim>\<open>renderTransform\<close> on the recorded
  transforms in order, awaiting each; when \<^verbatim>\<open>run\<close> is through, the \<^verbatim>\<open>finally\<close> callback
  runs and the unit's promise settles. \<^verbatim>\<open>renderTransform\<close> catches its own errors, so a
  failed render settles like any other.
\<close>

definition setPhase :: "nat \<Rightarrow> phase \<Rightarrow> scheduler \<Rightarrow> scheduler" where
  "setPhase i p s = s\<lparr>units := (units s)[i := (units s ! i)\<lparr>unitPhase := p\<rparr>]\<rparr>"









section \<open>Serialization in the specification's words\<close>






section \<open>What the scheduler keeps true\<close>

abbreviation keyOf :: "scheduler \<Rightarrow> nat \<Rightarrow> string" where
  "keyOf s i \<equiv> unitKey (units s ! i)"

abbreviation phaseOf :: "scheduler \<Rightarrow> nat \<Rightarrow> phase" where
  "phaseOf s i \<equiv> unitPhase (units s ! i)"

abbreviation previousOf :: "scheduler \<Rightarrow> nat \<Rightarrow> nat option" where
  "previousOf s i \<equiv> unitPrevious (units s ! i)"

text \<open>An entry of \<^verbatim>\<open>renderQueue\<close> names the last unit of its key.\<close>

definition queueLast :: "scheduler \<Rightarrow> bool" where
  "queueLast s =
     (\<forall>k i. map_of (renderQueue s) k = Some i \<longrightarrow>
        i < length (units s) \<and> keyOf s i = k \<and>
        (\<forall>j. i < j \<and> j < length (units s) \<longrightarrow> keyOf s j \<noteq> k))"

text \<open>A key without an entry has no unit that is still to settle.\<close>

definition noEntrySettled :: "scheduler \<Rightarrow> bool" where
  "noEntrySettled s =
     (\<forall>i. i < length (units s) \<and> map_of (renderQueue s) (keyOf s i) = None
        \<longrightarrow> phaseOf s i = Settled)"

text \<open>A unit waits for the unit of its key just before it; a unit that waits for nothing
  was created when the units of its key had all settled.\<close>

definition previousOk :: "scheduler \<Rightarrow> bool" where
  "previousOk s =
     (\<forall>j. j < length (units s) \<longrightarrow>
        (case previousOf s j of
           Some p \<Rightarrow> p < j \<and> keyOf s p = keyOf s j \<and>
                     (\<forall>m. p < m \<and> m < j \<longrightarrow> keyOf s m \<noteq> keyOf s j)
         | None \<Rightarrow> (\<forall>i. i < j \<and> keyOf s i = keyOf s j \<longrightarrow> phaseOf s i = Settled)))"

text \<open>A unit that has started waited for a unit that has settled.\<close>

definition startedAfter :: "scheduler \<Rightarrow> bool" where
  "startedAfter s =
     (\<forall>j. j < length (units s) \<and> phaseOf s j \<noteq> Waiting \<longrightarrow>
        (case previousOf s j of Some p \<Rightarrow> phaseOf s p = Settled | None \<Rightarrow> True))"

definition schedulerInv :: "scheduler \<Rightarrow> bool" where
  "schedulerInv s = (queueLast s \<and> noEntrySettled s \<and> previousOk s \<and> startedAfter s)"


section \<open>Concrete hosts and inputs\<close>

text \<open>
  The collation of the hosts below is the root collation of the engine on printable ASCII,
  at sensitivity \<^verbatim>\<open>base\<close>: the space, then the punctuation and the symbols in the order
  \<^verbatim>\<open>_ - , ; : ! ? . ' " ( ) [ ] { } @ * / \ & # % ` ^ + < = > | ~ $\<close>, then the digits, then the
  letters with their case ignored; strings are compared by the first character in which they
  differ. The other code units are put after the letters here, by their lower-case form; the
  examples have none.
\<close>

definition punctuation :: "nat list" where
  "punctuation =
     [32, 95, 45, 44, 59, 58, 33, 63, 46, 39, 34, 40, 41, 91, 93, 123, 125, 64, 42, 47,
      92, 38, 35, 37, 96, 94, 43, 60, 61, 62, 124, 126, 36]"

fun indexOf :: "nat \<Rightarrow> nat list \<Rightarrow> nat" where
  "indexOf n [] = 0"
| "indexOf n (x # xs) = (if x = n then 0 else Suc (indexOf n xs))"

text \<open>The place of a character in that order: the 33 characters of \<open>punctuation\<close>, the ten
  digits, the 26 letters, the rest.\<close>

definition rootWeight :: "char \<Rightarrow> nat" where
  "rootWeight c =
     (let n = (of_char (lower_char c) :: nat)
      in if 48 \<le> n \<and> n \<le> 57 then n - 15
         else if 97 \<le> n \<and> n \<le> 122 then n - 54
         else if n \<in> set punctuation then indexOf n punctuation
         else 69 + n)"

fun rootLe :: "string \<Rightarrow> string \<Rightarrow> bool" where
  "rootLe [] b = True"
| "rootLe (x # xs) [] = False"
| "rootLe (x # xs) (y # ys) =
     (rootWeight x < rootWeight y \<or> (rootWeight x = rootWeight y \<and> rootLe xs ys))"

lemma rootLe_total: "rootLe a b \<or> rootLe b a"
  by (induction a b rule: rootLe.induct) auto

lemma rootLe_trans: "rootLe a b \<Longrightarrow> rootLe b c \<Longrightarrow> rootLe a c"
proof (induction a b arbitrary: c rule: rootLe.induct)
  case (1 b)
  then show ?case by simp
next
  case (2 x xs)
  then show ?case by simp
next
  case (3 x xs y ys)
  then obtain z zs where c: "c = z # zs" by (cases c) auto
  show ?case using 3 unfolding c by auto
qed

lift_definition rootCollation :: collation is rootLe
  using rootLe_total rootLe_trans by blast

text \<open>A workspace \<^verbatim>\<open>/w\<close> holding the templates \<^verbatim>\<open>src/a.njk\<close> and \<^verbatim>\<open>src/sub/b.njk\<close>, a
  text file, a symbolic link to a template, and at its top a template \<^verbatim>\<open>a.njk\<close> and a
  symbolic link \<^verbatim>\<open>gone.njk\<close> whose target is missing.\<close>

definition demoSrc :: fsnode where
  "demoSrc =
     DirNode
       [(''a.njk'', FileNode),
        (''sub'', DirNode [(''b.njk'', FileNode), (''notes.txt'', FileNode)]),
        (''link.njk'', OtherNode)]"

definition demoTree :: fsnode where
  "demoTree =
     DirNode [(''w'', DirNode [(''src'', demoSrc), (''a.njk'', FileNode), (''gone.njk'', BrokenLink)])]"

definition linuxHost :: host where
  "linuxHost =
     \<lparr>platform = Linux, processCwd = ''/w'', fsCaseInsensitive = False, disk = demoTree,
      templateExtension = ''.njk'', additionalSearchPaths = [], logLevel = Normal,
      collator = rootCollation\<rparr>"


definition emptyExtensionHost :: host where
  "emptyExtensionHost = linuxHost\<lparr>templateExtension := []\<rparr>"



text \<open>A controller before its first reload, and the explicit and directory transforms of the
  examples, as \<^verbatim>\<open>readConfig\<close> builds them in the workspace \<^verbatim>\<open>/w\<close>.\<close>

definition emptyController :: controller where
  "emptyController =
     \<lparr>transforms = [], configFileTransforms = [], directoryTransforms = [],
      templateTransforms = [], variables = [], transformsBySource = [], sourceWatchers = [],
      lastTemplateCount = - 1, console = noUi\<rparr>"

definition explicitA :: FileTransformEntry where
  "explicitA =
     \<lparr>source = ''/w/src/a.njk'', target = ''/w/out/a'', searchPaths = [''/w/src'', ''/w''],
      templateName = ''a.njk'', description = ''src/a.njk '' @ arrow @ '' out/a''\<rparr>"

definition explicitA2 :: FileTransformEntry where
  "explicitA2 =
     \<lparr>source = ''/w/src/a.njk'', target = ''/w/out/a2'', searchPaths = [''/w/src'', ''/w''],
      templateName = ''a.njk'', description = ''src/a.njk '' @ arrow @ '' out/a2''\<rparr>"

definition demoDir :: DirectoryTransform where
  "demoDir =
     \<lparr>sourceDir = ''/w/src'', targetDir = ''/w/target'', recursive = True,
      workspaceFolder = Some ''/w'', dirDescription = ''src '' @ arrow @ '' target (recursive)''\<rparr>"

definition oneExplicit :: controller where
  "oneExplicit =
     emptyController\<lparr>configFileTransforms := [explicitA], directoryTransforms := [demoDir]\<rparr>"

definition twoExplicit :: controller where
  "twoExplicit =
     emptyController\<lparr>configFileTransforms := [explicitA, explicitA2],
                     directoryTransforms := [demoDir]\<rparr>"

text \<open>A file transform from one absolute path to another, for the examples of cycle
  detection.\<close>

definition edge :: "string \<Rightarrow> string \<Rightarrow> FileTransformEntry" where
  "edge s t =
     \<lparr>source = s, target = t, searchPaths = [path_dirname s], templateName = path_basename s,
      description = s @ '' '' @ arrow @ '' '' @ t\<rparr>"

text \<open>The graph of the repository's test \<^verbatim>\<open>detectCycles finds cycle in complex graph\<close>, with
  the cycle \<^verbatim>\<open>B\<close>, \<^verbatim>\<open>C\<close>, \<^verbatim>\<open>D\<close> and the transform from \<^verbatim>\<open>A\<close> to \<^verbatim>\<open>E\<close> outside it; a workspace
  that holds the four sources; and the configuration file that names the five transforms.\<close>

definition testGraph :: "FileTransformEntry list" where
  "testGraph =
     [edge ''/w/A'' ''/w/B'', edge ''/w/B'' ''/w/C'', edge ''/w/C'' ''/w/D'', edge ''/w/D'' ''/w/B'',
      edge ''/w/A'' ''/w/E'']"

definition cycleHost :: host where
  "cycleHost =
     linuxHost\<lparr>disk := DirNode [(''w'', DirNode [(''A'', FileNode), (''B'', FileNode),
                                                 (''C'', FileNode), (''D'', FileNode)])]\<rparr>"

definition cfgCycle :: configFile where
  "cfgCycle =
     \<lparr>cfgPath = ''/w/.vscode/cycle.njk.yaml'', cfgWorkspace = Some ''/w'',
      cfgSource = Document (YMap [(''transforms'',
                    YSeq [YMap [(''source'', YStr ''A''), (''target'', YStr ''B'')],
                          YMap [(''source'', YStr ''B''), (''target'', YStr ''C'')],
                          YMap [(''source'', YStr ''C''), (''target'', YStr ''D'')],
                          YMap [(''source'', YStr ''D''), (''target'', YStr ''B'')],
                          YMap [(''source'', YStr ''A''), (''target'', YStr ''E'')]])])\<rparr>"

text \<open>Two configuration files with a nested mapping under the same key; \<^verbatim>\<open>findFiles\<close> lists
  the second one first. The third file is not valid YAML and the fourth has a sequence at
  its root.\<close>

definition cfgFirst :: configFile where
  "cfgFirst =
     \<lparr>cfgPath = ''/w/.vscode/a.njk.yaml'', cfgWorkspace = Some ''/w'',
      cfgSource = Document (YMap [(''vars'',
                    YMap [(''nested'', YMap [(''a'', YNum ''1''), (''b'', YNum ''2'')])])])\<rparr>"

definition cfgSecond :: configFile where
  "cfgSecond =
     \<lparr>cfgPath = ''/w/.vscode/B.njk.yaml'', cfgWorkspace = Some ''/w'',
      cfgSource = Document (YMap [(''vars'',
                    YMap [(''nested'', YMap [(''b'', YNum ''9''), (''c'', YNum ''3'')])]),
                  (''transforms'', YSeq [YMap [(''source'', YStr ''src/a.njk''),
                                               (''target'', YStr ''out/a'')]])])\<rparr>"

definition cfgBroken :: configFile where
  "cfgBroken =
     \<lparr>cfgPath = ''/w/.vscode/broken.njk.yaml'', cfgWorkspace = Some ''/w'',
      cfgSource = ParseFailed ''Unexpected token''\<rparr>"

definition cfgSequence :: configFile where
  "cfgSequence =
     \<lparr>cfgPath = ''/w/.vscode/c.njk.yaml'', cfgWorkspace = Some ''/w'',
      cfgSource = Document (YSeq [YStr ''x''])\<rparr>"

text \<open>Two configuration files whose paths first differ where one has a slash and the other
  an underscore, both with a value for the key \<^verbatim>\<open>k\<close>.\<close>

definition cfgSlash :: configFile where
  "cfgSlash =
     \<lparr>cfgPath = ''/w/a/.vscode/c.njk.yaml'', cfgWorkspace = Some ''/w/a'',
      cfgSource = Document (YMap [(''vars'', YMap [(''k'', YNum ''1'')])])\<rparr>"

definition cfgUnderscore :: configFile where
  "cfgUnderscore =
     \<lparr>cfgPath = ''/w/a_b/.vscode/c.njk.yaml'', cfgWorkspace = Some ''/w/a_b'',
      cfgSource = Document (YMap [(''vars'', YMap [(''k'', YNum ''2'')])])\<rparr>"

text \<open>A store with the workspace directory and nothing else, and a renderer that produces
  the same text for every template.\<close>

definition emptyStore :: store where
  "emptyStore = \<lparr>dirs = {''/'', ''/w''}, fileContents = Map.empty, readOnly = {}, calls = []\<rparr>"

definition constRender :: "string \<Rightarrow> string list \<Rightarrow> (string \<times> yaml) list \<Rightarrow> string + string" where
  "constRender name paths vs = Inr ''hello''"






section \<open>Properties of strings and paths\<close>

lemma js_split_nonempty: "js_split c s \<noteq> []"
  by (induction s) (auto split: list.splits)

lemma js_split_no_sep: "p \<in> set (js_split c s) \<Longrightarrow> c \<notin> set p"
  by (induction s arbitrary: p) (auto split: list.splits if_splits)

lemma js_join_split: "js_join [c] (js_split c s) = s"
proof (induction s)
  case Nil
  then show ?case by simp
next
  case (Cons x xs)
  show ?case
  proof (cases "x = c")
    case True
    with Cons show ?thesis
      by (cases "js_split c xs") (auto simp: js_split_nonempty)
  next
    case False
    with Cons show ?thesis
      by (cases "js_split c xs"; cases "tl (js_split c xs)") (auto simp: js_split_nonempty)
  qed
qed

lemma segments_nonempty: "s \<in> set (segments p) \<Longrightarrow> s \<noteq> []"
  by (simp add: segments_def)

lemma segments_no_sep: "s \<in> set (segments p) \<Longrightarrow> CHR ''/'' \<notin> set s"
  by (auto simp: segments_def dest: js_split_no_sep)

lemma commonPrefix_le: "commonPrefix f t \<le> length f"
  by (induction f t rule: commonPrefix.induct) auto

lemma commonPrefix_full: "commonPrefix f t = length f \<longleftrightarrow> prefix f t"
  by (induction f t rule: commonPrefix.induct) auto

lemma js_join_hd:
  "ss \<noteq> [] \<Longrightarrow> \<exists>r. js_join sep ss = hd ss @ r \<and> (r = [] \<or> (\<exists>r'. r = sep @ r'))"
  by (cases ss; cases "tl ss") auto

lemma startsWith_dots_join:
  assumes "ss \<noteq> []" "hd ss \<noteq> []" "CHR ''/'' \<notin> set (hd ss)"
  shows "startsWith (js_join ''/'' ss) ''..'' \<longleftrightarrow> startsWith (hd ss) ''..''"
proof -
  obtain r where r: "js_join ''/'' ss = hd ss @ r" "r = [] \<or> (\<exists>r'. r = ''/'' @ r')"
    using js_join_hd[OF assms(1)] by blast
  obtain a as where h: "hd ss = a # as" using assms(2) by (cases "hd ss") auto
  show ?thesis
  proof (cases as)
    case Nil
    with r h show ?thesis by (auto simp: startsWith_def)
  next
    case (Cons b bs)
    with r h show ?thesis by (auto simp: startsWith_def)
  qed
qed

lemma not_absolute_join:
  assumes "\<forall>s\<in>set ss. s \<noteq> [] \<and> CHR ''/'' \<notin> set s"
  shows "\<not> path_isAbsolute (js_join ''/'' ss)"
proof (cases ss)
  case Nil
  then show ?thesis by (simp add: path_isAbsolute_def)
next
  case (Cons s ss')
  then obtain r where "js_join ''/'' ss = s @ r" using js_join_hd[of ss "''/''"] by auto
  moreover from Cons assms obtain a as where "s = a # as" "a \<noteq> CHR ''/''" by (cases s) auto
  ultimately show ?thesis by (simp add: path_isAbsolute_def)
qed

section \<open>Template lookup names (C8)\<close>

text \<open>
  The test of \<^verbatim>\<open>deriveTemplateName\<close> on the relative path, when no segment of the resolved
  source begins with two dots, says exactly that the search path covers the source.
\<close>

lemma relative_accepts:
  assumes "\<forall>s\<in>set (segments (path_resolve cwd [sourcePath])). \<not> startsWith s ''..''"
  shows "(\<not> startsWith (path_relative cwd base sourcePath) ''..'' \<and>
          \<not> path_isAbsolute (path_relative cwd base sourcePath)) \<longleftrightarrow> covers cwd base sourcePath"
proof -
  define f where "f = segments (path_resolve cwd [base])"
  define t where "t = segments (path_resolve cwd [sourcePath])"
  define n where "n = commonPrefix f t"
  have rel: "path_relative cwd base sourcePath =
             js_join ''/'' (replicate (length f - n) ''..'' @ drop n t)"
    by (simp add: path_relative_def f_def t_def n_def Let_def)
  have tseg: "\<forall>s\<in>set (drop n t). s \<noteq> [] \<and> CHR ''/'' \<notin> set s \<and> \<not> startsWith s ''..''"
    using assms segments_nonempty segments_no_sep unfolding t_def
    by (meson in_set_dropD)
  show ?thesis
  proof (cases "length f - n")
    case 0
    then have nf: "n = length f" using commonPrefix_le[of f t] by (simp add: n_def)
    then have cov: "covers cwd base sourcePath"
      using commonPrefix_full[of f t] by (simp add: covers_def f_def t_def n_def)
    have r: "path_relative cwd base sourcePath = js_join ''/'' (drop n t)"
      using rel 0 by simp
    have "\<not> path_isAbsolute (js_join ''/'' (drop n t))"
      using tseg by (intro not_absolute_join) auto
    moreover have "\<not> startsWith (js_join ''/'' (drop n t)) ''..''"
    proof (cases "drop n t")
      case Nil
      then show ?thesis by (simp add: startsWith_def)
    next
      case (Cons s ss)
      then have "s \<in> set (drop n t)" by simp
      with tseg have "s \<noteq> []" "CHR ''/'' \<notin> set s" "\<not> startsWith s ''..''" by auto
      then show ?thesis using startsWith_dots_join[of "drop n t"] Cons by simp
    qed
    ultimately show ?thesis using cov r by simp
  next
    case (Suc k)
    then have "n \<noteq> length f" by simp
    then have ncov: "\<not> covers cwd base sourcePath"
      using commonPrefix_full[of f t] by (simp add: covers_def f_def t_def n_def)
    have "startsWith (js_join ''/'' (replicate (length f - n) ''..'' @ drop n t)) ''..''"
      using Suc startsWith_dots_join[of "replicate (length f - n) ''..'' @ drop n t"]
      by (simp add: startsWith_def)
    then show ?thesis using ncov rel by simp
  qed
qed

lemma relative_covers:
  assumes "covers cwd base sourcePath"
  shows "path_relative cwd base sourcePath = relativeBelow cwd base sourcePath"
proof -
  have "commonPrefix (segments (path_resolve cwd [base])) (segments (path_resolve cwd [sourcePath]))
        = length (segments (path_resolve cwd [base]))"
    using assms commonPrefix_full by (simp add: covers_def)
  then show ?thesis by (simp add: path_relative_def relativeBelow_def Let_def)
qed

text \<open>
  C8 as the specification states it: the name comes from the first search path of which the
  source is a proper descendant, so a search path equal to the source is passed over. The code
  does not pass it over: with the source \<^verbatim>\<open>/a/b\<close> and the search paths \<^verbatim>\<open>/a/b\<close>, \<^verbatim>\<open>/a\<close> it
  returns the empty name, where the wording gives \<^verbatim>\<open>b\<close>.
\<close>

theorem deriveTemplateName_equal_path_counterexample:
  "deriveTemplateName ''/cwd'' ''/a/b'' [''/a/b'', ''/a'']
     \<noteq> spec_deriveTemplateName ''/cwd'' ''/a/b'' [''/a/b'', ''/a'']"
  by code_simp

text \<open>
  C8, amended: for a source none of whose path segments begins with two dots, the lookup name
  comes from the first search path, in order, that is the source itself or an ancestor
  directory of it, and is the path of the source below that search path with forward slashes
  (the empty name when the two are equal); when no search path covers the source, the name is
  the source's base name.
\<close>

theorem deriveTemplateName_first_cover:
  assumes "\<forall>s\<in>set (segments (path_resolve cwd [sourcePath])). \<not> startsWith s ''..''"
  shows "deriveTemplateName cwd sourcePath sps =
         (case find (\<lambda>base. covers cwd base sourcePath) sps of
            Some base \<Rightarrow> relativeBelow cwd base sourcePath
          | None \<Rightarrow> path_basename sourcePath)"
proof (induction sps)
  case Nil
  then show ?case by simp
next
  case (Cons base sps)
  show ?case
  proof (cases "covers cwd base sourcePath")
    case True
    then have "\<not> startsWith (path_relative cwd base sourcePath) ''..'' \<and>
          \<not> path_isAbsolute (path_relative cwd base sourcePath)"
      using relative_accepts[OF assms] by simp
    then show ?thesis using True relative_covers[OF True] js_join_split[of "CHR ''/''"]
      by (simp add: path_sep_def)
  next
    case False
    then have "\<not> (\<not> startsWith (path_relative cwd base sourcePath) ''..'' \<and>
          \<not> path_isAbsolute (path_relative cwd base sourcePath))"
      using relative_accepts[OF assms] by simp
    then show ?thesis using False Cons by auto
  qed
qed

theorem deriveTemplateName_first_cover_witness:
  "list_all (\<lambda>s. \<not> startsWith s ''..'') (segments (path_resolve ''/cwd'' [''/w/t/sub/x.njk''])) \<and>
   deriveTemplateName ''/cwd'' ''/w/t/sub/x.njk'' [''/other'', ''/w/t'', ''/w''] = ''sub/x.njk''"
proof -
  have l: "list_all (\<lambda>s. \<not> startsWith s ''..'') (segments (path_resolve ''/cwd'' [''/w/t/sub/x.njk'']))"
    by code_simp
  then have h: "\<forall>s\<in>set (segments (path_resolve ''/cwd'' [''/w/t/sub/x.njk''])). \<not> startsWith s ''..''"
    by (simp only: list_all_iff)
  have "deriveTemplateName ''/cwd'' ''/w/t/sub/x.njk'' [''/other'', ''/w/t'', ''/w''] =
        (case find (\<lambda>base. covers ''/cwd'' base ''/w/t/sub/x.njk'') [''/other'', ''/w/t'', ''/w''] of
            Some base \<Rightarrow> relativeBelow ''/cwd'' base ''/w/t/sub/x.njk''
          | None \<Rightarrow> path_basename ''/w/t/sub/x.njk'')"
    by (rule deriveTemplateName_first_cover[OF h])
  also have "\<dots> = ''sub/x.njk''"
    by code_simp
  finally show ?thesis using l by blast
qed

section \<open>File-transform creation (C7)\<close>







section \<open>Explicit transforms take precedence over derived ones (C4)\<close>

lemma set_update_subset: "set (AList.update k v al) \<subseteq> insert (k, v) (set al)"
  by (induction al) auto

lemma mapHas_iff: "mapHas m k \<longleftrightarrow> k \<in> fst ` set m"
  by (simp add: mapHas_def map_of_eq_None_iff)

lemma keys_fold_update:
  "fst ` set (fold (\<lambda>entry m. AList.update (f entry) entry m) es m0) = fst ` set m0 \<union> f ` set es"
  by (induction es arbitrary: m0) (auto simp: dom_update)

lemma mapHas_bySource: "mapHas (bySource h es) k \<longleftrightarrow> k \<in> canonicalSource h ` set es"
  unfolding mapHas_iff bySource_def using keys_fold_update[of "\<lambda>e. normalizeFsPath h (source e)" es "[]"]
  by simp

lemma fold_guarded_update:
  assumes "(k, e) \<in> set (fold (\<lambda>entry m. if P (f entry) then AList.update (f entry) entry m else m) es m0)"
  shows "(k, e) \<in> set m0 \<or> (k = f e \<and> P k)"
  using assms
proof (induction es arbitrary: m0)
  case Nil
  then show ?case by simp
next
  case (Cons x xs)
  then have "(k, e) \<in> set (if P (f x) then AList.update (f x) x m0 else m0) \<or> (k = f e \<and> P k)"
    by simp
  then show ?case using set_update_subset[of "f x" x m0] by (auto split: if_splits)
qed

lemma rebuild_transforms:
  "transforms (rebuildTransformsList h c) = configFileTransforms c @
     map snd (fold (\<lambda>entry m. if \<not> mapHas (bySource h (configFileTransforms c)) (canonicalSource h entry)
                     then AList.update (canonicalSource h entry) entry m else m) (templateTransforms c) [])"
  by (simp add: rebuildTransformsList_def Let_def)

lemma rebuild_explicit:
  assumes "e \<in> set (configFileTransforms c)"
  shows "filter (\<lambda>t. canonicalSource h t = canonicalSource h e) (transforms (rebuildTransformsList h c))
         = filter (\<lambda>t. canonicalSource h t = canonicalSource h e) (configFileTransforms c)"
proof -
  let ?m = "fold (\<lambda>entry m. if \<not> mapHas (bySource h (configFileTransforms c)) (canonicalSource h entry)
                     then AList.update (canonicalSource h entry) entry m else m) (templateTransforms c) []"
  have "\<And>t. t \<in> set (map snd ?m) \<Longrightarrow> canonicalSource h t \<noteq> canonicalSource h e"
  proof -
    fix t assume "t \<in> set (map snd ?m)"
    then obtain k where "(k, t) \<in> set ?m" by auto
    then have "k = canonicalSource h t \<and> \<not> mapHas (bySource h (configFileTransforms c)) k"
      using fold_guarded_update[of k t "\<lambda>k. \<not> mapHas (bySource h (configFileTransforms c)) k" "canonicalSource h" "templateTransforms c" "[]"]
      by fastforce
    then show "canonicalSource h t \<noteq> canonicalSource h e"
      using assms mapHas_bySource[of h "configFileTransforms c"] by auto
  qed
  then have "filter (\<lambda>t. canonicalSource h t = canonicalSource h e) (map snd ?m) = []"
    by (simp add: filter_empty_conv)
  then show ?thesis by (simp add: rebuild_transforms)
qed

lemma rebuildTransformsList_cfg [simp]:
  "configFileTransforms (rebuildTransformsList h c) = configFileTransforms c"
  by (simp add: rebuildTransformsList_def Let_def)

lemma rebuildSourceWatchers_fields [simp]:
  "configFileTransforms (rebuildSourceWatchers h c) = configFileTransforms c"
  "transforms (rebuildSourceWatchers h c) = transforms c"
  by (simp_all add: rebuildSourceWatchers_def Let_def)

lemma performTemplateReload_explicit:
  assumes "e \<in> set (configFileTransforms c)"
  shows "filter (\<lambda>t. canonicalSource h t = canonicalSource h e) (transforms (performTemplateReload h c))
         = filter (\<lambda>t. canonicalSource h t = canonicalSource h e) (configFileTransforms c)"
proof -
  obtain m u where mu: "fold (expandDirectoryTransform h) (directoryTransforms c) ([], console c) = (m, u)"
    by (cases "fold (expandDirectoryTransform h) (directoryTransforms c) ([], console c)")
  define dyn where "dyn = sortBy (\<lambda>a b. localeCompareLe h (source a) (source b))
               (filter (\<lambda>entry. \<not> mapHas (bySource h (configFileTransforms c)) (normalizeFsPath h (source entry)))
                       (map snd m))"
  define c0 where "c0 = c\<lparr>templateTransforms := dyn, console := u\<rparr>"
  have tr: "transforms (performTemplateReload h c) = transforms (rebuildTransformsList h c0)"
    unfolding performTemplateReload_def Let_def mu c0_def dyn_def by simp
  have "e \<in> set (configFileTransforms c0)" using assms by (simp add: c0_def)
  from rebuild_explicit[OF this, of h] show ?thesis unfolding tr by (simp add: c0_def)
qed

lemma handleTemplateChangeLoop_explicit:
  assumes "e \<in> set (configFileTransforms c)"
    and "filter (\<lambda>t. canonicalSource h t = canonicalSource h e) (transforms c)
         = filter (\<lambda>t. canonicalSource h t = canonicalSource h e) (configFileTransforms c)"
  shows "filter (\<lambda>t. canonicalSource h t = canonicalSource h e) (transforms (handleTemplateChangeLoop h uri dts c))
         = filter (\<lambda>t. canonicalSource h t = canonicalSource h e) (configFileTransforms c)"
  using assms
proof (induction dts arbitrary: c)
  case Nil
  then show ?case by simp
next
  case (Cons dt dts)
  show ?case
  proof (cases "\<not> startsWith (path_relative (processCwd h) (sourceDir dt) uri) ''..'' \<and>
                \<not> path_isAbsolute (path_relative (processCwd h) (sourceDir dt) uri)")
    case False
    then show ?thesis using Cons by (auto simp: Let_def)
  next
    case True
    obtain r u where r: "createDirectoryFileTransform h dt uri (path_relative (processCwd h) (sourceDir dt) uri) (console c) = (r, u)"
      by (cases "createDirectoryFileTransform h dt uri (path_relative (processCwd h) (sourceDir dt) uri) (console c)")
    show ?thesis
    proof (cases r)
      case None
      have "filter (\<lambda>t. canonicalSource h t = canonicalSource h e) (transforms (handleTemplateChangeLoop h uri dts (c\<lparr>console := u\<rparr>)))
         = filter (\<lambda>t. canonicalSource h t = canonicalSource h e) (configFileTransforms (c\<lparr>console := u\<rparr>))"
        using Cons.prems by (intro Cons.IH) simp_all
      then show ?thesis using True r None by (simp add: Let_def)
    next
      case (Some entry)
      define tts where "tts = (case findIndex (\<lambda>t. normalizeFsPath h (source t) = normalizeFsPath h uri) (templateTransforms c) of
                          Some existingIndex \<Rightarrow> (templateTransforms c)[existingIndex := entry]
                        | None \<Rightarrow> templateTransforms c @ [entry])"
      have "e \<in> set (configFileTransforms (c\<lparr>templateTransforms := tts, console := u\<rparr>))"
        using Cons.prems by simp
      from rebuild_explicit[OF this, of h] show ?thesis
        using True r Some by (simp add: Let_def tts_def)
    qed
  qed
qed

lemma handleTemplateDelete_explicit:
  assumes "e \<in> set (configFileTransforms c)"
    and "filter (\<lambda>t. canonicalSource h t = canonicalSource h e) (transforms c)
         = filter (\<lambda>t. canonicalSource h t = canonicalSource h e) (configFileTransforms c)"
  shows "filter (\<lambda>t. canonicalSource h t = canonicalSource h e) (transforms (handleTemplateDelete h uri c))
         = filter (\<lambda>t. canonicalSource h t = canonicalSource h e) (configFileTransforms c)"
proof -
  define c1 where "c1 = c\<lparr>templateTransforms :=
                   filter (\<lambda>t. normalizeFsPath h (source t) \<noteq> normalizeFsPath h uri) (templateTransforms c)\<rparr>"
  have "e \<in> set (configFileTransforms c1)" using assms by (simp add: c1_def)
  from rebuild_explicit[OF this, of h] show ?thesis
    using assms(2) by (simp add: handleTemplateDelete_def Let_def c1_def)
qed

text \<open>
  C4 as the specification states it: a source named both by an explicit transform and by a
  directory expansion has exactly one FileTransform in the combined list. Two explicit
  transforms may share a source (one template, two targets); with \<^verbatim>\<open>src/a.njk\<close> mapped to
  \<^verbatim>\<open>out/a\<close> and to \<^verbatim>\<open>out/a2\<close> and the directory \<^verbatim>\<open>src\<close> expanded as well, the combined list
  after a full rescan holds two entries for that source.
\<close>

theorem explicit_not_single_counterexample:
  "(''/w/src/a.njk'', ''a.njk'') \<in> set (case collectTemplatesFromDirectory linuxHost demoDir of Inr ts \<Rightarrow> ts | Inl e \<Rightarrow> []) \<and>
   explicitA \<in> set (configFileTransforms twoExplicit) \<and>
   canonicalSource linuxHost explicitA = ''/w/src/a.njk'' \<and>
   length (filter (\<lambda>t. canonicalSource linuxHost t = ''/w/src/a.njk'')
             (transforms (performTemplateReload linuxHost twoExplicit))) = 2"
  by code_simp

text \<open>
  C4, amended: for every canonical source path named by an explicit file transform, the
  entries of the combined transform list for that source are exactly the explicit transforms
  for it, in their order (so exactly one when a single explicit transform names the source),
  and no derived entry for it appears; this holds after a full rescan, and an incremental
  update for a changed or deleted template keeps it.
\<close>

theorem explicit_over_derived:
  assumes "e \<in> set (configFileTransforms c)"
  shows "filter (\<lambda>t. canonicalSource h t = canonicalSource h e) (transforms (performTemplateReload h c))
           = filter (\<lambda>t. canonicalSource h t = canonicalSource h e) (configFileTransforms c) \<and>
         (filter (\<lambda>t. canonicalSource h t = canonicalSource h e) (transforms c)
            = filter (\<lambda>t. canonicalSource h t = canonicalSource h e) (configFileTransforms c) \<longrightarrow>
          filter (\<lambda>t. canonicalSource h t = canonicalSource h e) (transforms (handleTemplateChange h uri c))
            = filter (\<lambda>t. canonicalSource h t = canonicalSource h e) (configFileTransforms c) \<and>
          filter (\<lambda>t. canonicalSource h t = canonicalSource h e) (transforms (handleTemplateDelete h uri c))
            = filter (\<lambda>t. canonicalSource h t = canonicalSource h e) (configFileTransforms c))"
  using performTemplateReload_explicit[OF assms] handleTemplateChangeLoop_explicit[OF assms]
    handleTemplateDelete_explicit[OF assms]
  by (simp add: handleTemplateChange_def)

theorem explicit_over_derived_witness:
  "explicitA \<in> set (configFileTransforms oneExplicit) \<and>
   map source (templateTransforms (handleTemplateChange linuxHost ''/w/src/a.njk''
                  (performTemplateReload linuxHost oneExplicit)))
     = [''/w/src/sub/b.njk'', ''/w/src/a.njk''] \<and>
   filter (\<lambda>t. canonicalSource linuxHost t = canonicalSource linuxHost explicitA)
      (transforms (performTemplateReload linuxHost oneExplicit)) = [explicitA] \<and>
   filter (\<lambda>t. canonicalSource linuxHost t = canonicalSource linuxHost explicitA)
      (transforms (handleTemplateChange linuxHost ''/w/src/a.njk''
                     (performTemplateReload linuxHost oneExplicit))) = [explicitA]"
proof -
  let ?c1 = "performTemplateReload linuxHost oneExplicit"
  let ?same = "\<lambda>t. canonicalSource linuxHost t = canonicalSource linuxHost explicitA"
  have m: "explicitA \<in> set (configFileTransforms oneExplicit)"
    by (simp add: oneExplicit_def emptyController_def)
  have cfg: "filter ?same (configFileTransforms oneExplicit) = [explicitA]"
    by (simp add: oneExplicit_def emptyController_def)
  have cfg1: "configFileTransforms ?c1 = configFileTransforms oneExplicit"
    by code_simp
  have tt: "map source (templateTransforms (handleTemplateChange linuxHost ''/w/src/a.njk'' ?c1))
     = [''/w/src/sub/b.njk'', ''/w/src/a.njk'']"
    by code_simp
  have full: "filter ?same (transforms ?c1) = filter ?same (configFileTransforms oneExplicit)"
    using explicit_over_derived[OF m, of linuxHost] by blast
  have m1: "explicitA \<in> set (configFileTransforms ?c1)" using m cfg1 by simp
  have "filter ?same (transforms ?c1) = filter ?same (configFileTransforms ?c1)"
    using full cfg1 by simp
  then have "filter ?same (transforms (handleTemplateChange linuxHost ''/w/src/a.njk'' ?c1))
      = filter ?same (configFileTransforms ?c1)"
    using explicit_over_derived[OF m1, of linuxHost "''/w/src/a.njk''"] by blast
  then show ?thesis using m tt full cfg cfg1 by simp
qed

section \<open>Directory expansion (C5)\<close>

lemma js_split_no_sep_id: "c \<notin> set s \<Longrightarrow> js_split c s = [s]"
  by (induction s) auto

lemma js_split_append: "js_split c (a @ c # b) = js_split c a @ js_split c b"
proof (induction a)
  case Nil
  then show ?case by simp
next
  case (Cons x a)
  then show ?case
    by (cases "js_split c a") (auto simp: js_split_nonempty)
qed

lemma js_join_snoc: "js_join sep (xs @ [y]) = (if xs = [] then y else js_join sep xs @ sep @ y)"
  by (induction sep xs rule: js_join.induct) auto

lemma js_join_Cons: "js_join sep (x # xs) = (if xs = [] then x else x @ sep @ js_join sep xs)"
  by (cases xs) auto

lemma js_split_join:
  "ss \<noteq> [] \<Longrightarrow> \<forall>s\<in>set ss. c \<notin> set s \<Longrightarrow> js_split c (js_join [c] ss) = ss"
proof (induction ss)
  case Nil
  then show ?case by simp
next
  case (Cons s ss)
  show ?case
  proof (cases ss)
    case Nil
    with Cons.prems show ?thesis by (simp add: js_split_no_sep_id)
  next
    case (Cons t ts)
    then have "js_join [c] (s # ss) = s @ c # js_join [c] ss" by simp
    then show ?thesis
      using Cons.IH Cons.prems Cons by (simp add: js_split_append js_split_no_sep_id)
  qed
qed

lemma normSegs_append: "normSegs a (xs @ ys) res = normSegs a ys (normSegs a xs res)"
  by (induction xs arbitrary: res) auto

lemma normSegs_valid: "list_all validName ys \<Longrightarrow> normSegs a ys res = res @ ys"
  by (induction ys arbitrary: res) (auto simp: validName_def)

lemma normSegs_False_valid_set:
  "\<forall>s\<in>set res. validName s \<Longrightarrow> \<forall>s\<in>set xs. CHR ''/'' \<notin> set s \<Longrightarrow>
   \<forall>s\<in>set (normSegs False xs res). validName s"
proof (induction xs arbitrary: res)
  case Nil
  then show ?case by simp
next
  case (Cons x xs)
  have xs: "\<forall>s\<in>set xs. CHR ''/'' \<notin> set s" using Cons.prems(2) by simp
  have bl: "\<forall>s\<in>set (butlast res). validName s"
    using Cons.prems(1) by (meson in_set_butlastD)
  consider "x = [] \<or> x = ''.''" | "x = ''..''" | "x \<noteq> []" "x \<noteq> ''.''" "x \<noteq> ''..''" by blast
  then show ?case
  proof cases
    case 1
    then show ?thesis using Cons.IH[OF Cons.prems(1) xs] by auto
  next
    case 2
    then show ?thesis using Cons.IH[OF Cons.prems(1) xs] Cons.IH[OF bl xs] by simp
  next
    case 3
    then have "validName x" using Cons.prems(2) by (simp add: validName_def)
    then have "\<forall>s\<in>set (res @ [x]). validName s" using Cons.prems(1) by simp
    from Cons.IH[OF this xs] show ?thesis using 3 by simp
  qed
qed

lemma normSegs_False_valid:
  "list_all validName res \<Longrightarrow> \<forall>s\<in>set xs. CHR ''/'' \<notin> set s \<Longrightarrow>
   list_all validName (normSegs False xs res)"
  using normSegs_False_valid_set[of res xs] by (simp add: list_all_iff)

lemma rootSegs_valid: "list_all validName (rootSegs r)"
  unfolding rootSegs_def by (rule normSegs_False_valid) (auto dest: js_split_no_sep)

lemma valid_no_sep: "list_all validName vs \<Longrightarrow> \<forall>s\<in>set vs. CHR ''/'' \<notin> set s"
  by (auto simp: list_all_iff validName_def)

lemma js_join_nonempty: "vs \<noteq> [] \<Longrightarrow> list_all validName vs \<Longrightarrow> js_join sep vs \<noteq> []"
  by (cases vs; cases "tl vs") (auto simp: validName_def)

lemma js_join_hd_char:
  "vs \<noteq> [] \<Longrightarrow> list_all validName vs \<Longrightarrow> hd (js_join ''/'' vs) \<noteq> CHR ''/''"
  by (cases vs; cases "tl vs"; cases "hd vs") (auto simp: validName_def)

lemma js_join_last_char:
  "vs \<noteq> [] \<Longrightarrow> list_all validName vs \<Longrightarrow> last (js_join ''/'' vs) \<noteq> CHR ''/''"
proof (induction vs)
  case Nil
  then show ?case by simp
next
  case (Cons v vs)
  show ?case
  proof (cases vs)
    case Nil
    with Cons.prems show ?thesis by (cases v rule: rev_cases) (auto simp: validName_def)
  next
    case (Cons w ws)
    then have "js_join ''/'' (v # vs) = v @ ''/'' @ js_join ''/'' vs" by simp
    moreover have "js_join ''/'' vs \<noteq> []" using Cons Cons.prems js_join_nonempty[of vs] by simp
    ultimately show ?thesis using Cons.IH Cons.prems Cons by simp
  qed
qed

lemma normalizeString_valid:
  assumes "vs \<noteq> []" "list_all validName vs"
  shows "normalizeString (js_join ''/'' vs) a = js_join ''/'' vs"
  using assms js_split_join[of vs "CHR ''/''"] valid_no_sep[of vs]
  by (simp add: normalizeString_def normSegs_valid)

lemma path_normalize_relative_valid:
  assumes "vs \<noteq> []" "list_all validName vs"
  shows "path_normalize (js_join ''/'' vs) = js_join ''/'' vs"
  using assms js_join_nonempty[of vs "''/''"] js_join_hd_char[of vs] js_join_last_char[of vs]
  by (simp add: path_normalize_def Let_def normalizeString_valid)

lemma normalizeString_abs_join:
  assumes "list_all validName bs" "bs \<noteq> []"
  shows "normalizeString (r @ ''/'' @ js_join ''/'' bs) False = js_join ''/'' (rootSegs r @ bs)"
proof -
  have "js_split CHR ''/'' (r @ CHR ''/'' # js_join ''/'' bs) = js_split CHR ''/'' r @ bs"
    using assms js_split_join[of bs "CHR ''/''"] valid_no_sep[of bs] by (simp add: js_split_append)
  then show ?thesis
    using assms by (simp add: normalizeString_def normSegs_append normSegs_valid rootSegs_def)
qed

lemma path_join_abs:
  assumes "path_isAbsolute r" "list_all validName bs" "bs \<noteq> []"
  shows "path_join [r, js_join ''/'' bs] = ''/'' @ js_join ''/'' (rootSegs r @ bs)"
proof -
  let ?b = "js_join ''/'' bs"
  have b: "?b \<noteq> []" using assms js_join_nonempty by blast
  have r: "r \<noteq> []" "hd r = CHR ''/''" using assms(1) by (auto simp: path_isAbsolute_def)
  have joined: "js_join ''/'' (filter (\<lambda>a. a \<noteq> []) [r, ?b]) = r @ ''/'' @ ?b"
    using b r by simp
  have l: "last (r @ ''/'' @ ?b) \<noteq> CHR ''/''"
    using b js_join_last_char[OF assms(3,2)] by simp
  have n: "js_join ''/'' (rootSegs r @ bs) \<noteq> []"
    using assms rootSegs_valid[of r] by (intro js_join_nonempty) auto
  show ?thesis
    unfolding path_join_def Let_def joined
    using r l n normalizeString_abs_join[OF assms(2,3), of r]
    by (simp add: path_normalize_def Let_def)
qed

lemma rootSegs_abs_join:
  assumes "list_all validName vs"
  shows "rootSegs (''/'' @ js_join ''/'' vs) = vs"
proof (cases vs)
  case Nil
  then show ?thesis by (simp add: rootSegs_def)
next
  case (Cons v ws)
  then have "js_split CHR ''/'' (''/'' @ js_join ''/'' vs) = [] # vs"
    using assms js_split_join[of vs "CHR ''/''"] valid_no_sep[of vs] by simp
  then show ?thesis using assms by (simp add: rootSegs_def normSegs_valid)
qed

lemma abs_join_isAbsolute: "path_isAbsolute (''/'' @ s)"
  by (simp add: path_isAbsolute_def)

lemma path_join_nested:
  assumes "path_isAbsolute r" "list_all validName ps" "ps \<noteq> []" "validName name"
  shows "path_join [path_join [r, js_join ''/'' ps], name] = path_join [r, js_join ''/'' (ps @ [name])]"
proof -
  have v: "list_all validName (rootSegs r @ ps)" using assms rootSegs_valid[of r] by simp
  have "path_join [path_join [r, js_join ''/'' ps], name]
        = path_join [''/'' @ js_join ''/'' (rootSegs r @ ps), js_join ''/'' [name]]"
    using path_join_abs[OF assms(1,2,3)] by simp
  also have "\<dots> = ''/'' @ js_join ''/'' (rootSegs (''/'' @ js_join ''/'' (rootSegs r @ ps)) @ [name])"
    using assms(4) by (intro path_join_abs abs_join_isAbsolute) auto
  also have "\<dots> = ''/'' @ js_join ''/'' (rootSegs r @ ps @ [name])"
    using rootSegs_abs_join[OF v] by simp
  also have "\<dots> = path_join [r, js_join ''/'' (ps @ [name])]"
    using assms by (intro path_join_abs[symmetric]) auto
  finally show ?thesis .
qed

lemma path_join_relative:
  assumes "list_all validName ps" "ps \<noteq> []" "validName name"
  shows "path_join [js_join ''/'' ps, name] = js_join ''/'' (ps @ [name])"
proof -
  have "js_join ''/'' ps \<noteq> []" using assms js_join_nonempty by blast
  moreover have "name \<noteq> []" using assms(3) by (simp add: validName_def)
  ultimately have "path_join [js_join ''/'' ps, name] = path_normalize (js_join ''/'' (ps @ [name]))"
    using assms(2) by (simp add: path_join_def js_join_snoc)
  then show ?thesis using assms path_normalize_relative_valid[of "ps @ [name]"] by simp
qed

lemma filesUnder_nonempty:
  "[] \<notin> set (filesUnder rec node)" "[] \<notin> set (filesIn rec entries)"
  by (induction rec node and rec entries rule: filesUnder_filesIn.induct) auto

lemma js_join_empty_iff: "list_all validName ps \<Longrightarrow> js_join ''/'' ps = [] \<longleftrightarrow> ps = []"
  using js_join_nonempty[of ps "''/''"] by auto

lemma found_Cons:
  assumes "[] \<notin> set files"
  shows "foundTemplates h root ps (map (\<lambda>segs. name # segs) files) = foundTemplates h root (ps @ [name]) files"
proof -
  have "filter (\<lambda>segs. isTemplateName h (last segs)) (map (\<lambda>segs. name # segs) files)
        = map (\<lambda>segs. name # segs) (filter (\<lambda>segs. isTemplateName h (last segs)) files)"
    using assms by (induction files) auto
  then show ?thesis by (simp add: comp_def)
qed

lemma walk_spec:
  "readableTree rec node \<Longrightarrow> list_all validName ps \<Longrightarrow> path_isAbsolute root \<Longrightarrow>
     walkDirectoryForTemplates h root (js_join ''/'' ps) rec node b
       = Inr (b @ foundTemplates h root ps (filesUnder rec node))"
  "readableEntries rec entries \<Longrightarrow> list_all validName ps \<Longrightarrow> path_isAbsolute root \<Longrightarrow>
     walkEntries h root (js_join ''/'' ps) rec
        (if js_join ''/'' ps \<noteq> [] then path_join [root, js_join ''/'' ps] else root) entries b
       = Inr (b @ foundTemplates h root ps (filesIn rec entries))"
proof (induction rec node and rec entries arbitrary: ps b and ps b rule: filesUnder_filesIn.induct)
  case (1 rec entries)
  then show ?case by simp
next
  case (2 rec)
  then show ?case by simp
next
  case (3 rec)
  then show ?case by simp
next
  case (4 rec)
  then show ?case by simp
next
  case (5 rec)
  then show ?case by simp
next
  case (6 rec)
  then show ?case by simp
next
  case (7 rec name child entries)
  let ?cur = "if js_join ''/'' ps \<noteq> [] then path_join [root, js_join ''/'' ps] else root"
  have vn: "validName name" and re: "readableEntries rec entries"
    using "7.prems"(1) by auto
  have vps: "list_all validName (ps @ [name])" using vn "7.prems"(2) by simp
  have rel: "(if js_join ''/'' ps \<noteq> [] then path_join [js_join ''/'' ps, name] else name)
             = js_join ''/'' (ps @ [name])"
    using path_join_relative[OF "7.prems"(2) _ vn] js_join_empty_iff[OF "7.prems"(2)] by auto
  have cp: "path_join [?cur, name] = path_join [root, js_join ''/'' (ps @ [name])]"
    using path_join_nested[OF "7.prems"(3) "7.prems"(2) _ vn] js_join_empty_iff[OF "7.prems"(2)]
    by auto
  have rest: "\<And>b'. walkEntries h root (js_join ''/'' ps) rec ?cur entries b'
                 = Inr (b' @ foundTemplates h root ps (filesIn rec entries))"
    using "7.IH"(2)[OF re "7.prems"(2,3)] .
  show ?case
  proof (cases "child = FileNode")
    case True
    then show ?thesis
      using rest rel cp by (simp add: Let_def isTemplateName_def)
  next
    case nf: False
    show ?thesis
    proof (cases "isDirectory child \<and> rec")
      case True
      then have rt: "readableTree rec child" using "7.prems"(1) by simp
      have "walkDirectoryForTemplates h root (js_join ''/'' (ps @ [name])) rec child b
            = Inr (b @ foundTemplates h root (ps @ [name]) (filesUnder rec child))"
        using "7.IH"(1)[OF nf _ rt vps "7.prems"(3)] True by simp
      then show ?thesis
        using rest rel nf True found_Cons[OF filesUnder_nonempty(1)]
        by (simp add: Let_def del: walkDirectoryForTemplates.simps)
    next
      case False
      then consider (a) "\<not> rec" | (b) "rec" "\<not> isDirectory child" by blast
      then show ?thesis
      proof cases
        case a
        then show ?thesis
          using rest nf by (simp add: Let_def del: walkDirectoryForTemplates.simps)
      next
        case b
        then have "filesUnder rec child = []"
          using nf by (cases child) (auto simp: isDirectory_def)
        then show ?thesis
          using rest nf b by (simp add: Let_def del: walkDirectoryForTemplates.simps)
      qed
    qed
  qed
qed

lemma filesUnder_valid:
  "readableTree rec node \<Longrightarrow> \<forall>segs\<in>set (filesUnder rec node). list_all validName segs"
  "readableEntries rec entries \<Longrightarrow> \<forall>segs\<in>set (filesIn rec entries). list_all validName segs"
proof (induction rec node and rec entries rule: filesUnder_filesIn.induct)
  case (7 rec name child entries)
  have vn: "validName name" and re: "readableEntries rec entries" using "7.prems" by auto
  have rest: "\<forall>segs\<in>set (filesIn rec entries). list_all validName segs" using "7.IH"(2)[OF re] .
  show ?case
  proof (cases "child = FileNode")
    case True
    then show ?thesis using vn rest by simp
  next
    case nf: False
    show ?thesis
    proof (cases rec)
      case True
      show ?thesis
      proof (cases "isDirectory child")
        case d: True
        then have "readableTree rec child" using "7.prems" True by simp
        from "7.IH"(1)[OF nf True this] show ?thesis using vn rest nf True by auto
      next
        case False
        then have "filesUnder rec child = []" using nf by (cases child) (auto simp: isDirectory_def)
        then show ?thesis using rest nf by simp
      qed
    next
      case False
      then show ?thesis using rest nf by simp
    qed
  qed
qed simp_all

lemma path_normalize_abs_form:
  assumes "path_isAbsolute p"
  shows "path_normalize p =
           (if rootSegs p = [] then ''/''
            else ''/'' @ js_join ''/'' (rootSegs p) @ (if last p = CHR ''/'' then ''/'' else []))"
proof -
  have p: "p \<noteq> []" "hd p = CHR ''/''" using assms by (auto simp: path_isAbsolute_def)
  have n: "normalizeString p False = js_join ''/'' (rootSegs p)"
    by (simp add: normalizeString_def rootSegs_def)
  have e: "js_join ''/'' (rootSegs p) = [] \<longleftrightarrow> rootSegs p = []"
    using js_join_empty_iff[OF rootSegs_valid] .
  show ?thesis using p n e by (simp add: path_normalize_def Let_def)
qed

lemma rootSegs_trailing:
  assumes "list_all validName vs" "vs \<noteq> []"
  shows "rootSegs (''/'' @ js_join ''/'' vs @ ''/'') = vs"
proof -
  have "js_split CHR ''/'' (''/'' @ js_join ''/'' vs @ ''/'') = [] # js_split CHR ''/'' (js_join ''/'' vs @ CHR ''/'' # [])"
    by simp
  also have "\<dots> = [] # vs @ [[]]"
    using assms js_split_join[of vs "CHR ''/''"] valid_no_sep[of vs]
    by (simp only: js_split_append) simp
  finally show ?thesis using assms by (simp add: rootSegs_def normSegs_append normSegs_valid)
qed

lemma path_normalize_idem_abs:
  assumes "path_isAbsolute p"
  shows "path_normalize (path_normalize p) = path_normalize p"
proof (cases "rootSegs p = []")
  case True
  then have "path_normalize p = ''/''" using path_normalize_abs_form[OF assms] by simp
  moreover have "path_normalize ''/'' = ''/''" by code_simp
  ultimately show ?thesis by simp
next
  case False
  let ?n = "js_join ''/'' (rootSegs p)"
  have v: "list_all validName (rootSegs p)" by (rule rootSegs_valid)
  have l: "last ?n \<noteq> CHR ''/''" using js_join_last_char[OF False v] .
  have ne: "?n \<noteq> []" using js_join_nonempty[OF False v] .
  show ?thesis
  proof (cases "last p = CHR ''/''")
    case True
    then have q: "path_normalize p = ''/'' @ ?n @ ''/''"
      using path_normalize_abs_form[OF assms] False by simp
    have "path_normalize (''/'' @ ?n @ ''/'') = ''/'' @ ?n @ ''/''"
      using path_normalize_abs_form[OF abs_join_isAbsolute, of "?n @ ''/''"]
        rootSegs_trailing[OF v False] False by simp
    then show ?thesis using q by simp
  next
    case nt: False
    then have q: "path_normalize p = ''/'' @ ?n"
      using path_normalize_abs_form[OF assms] False by simp
    have "path_normalize (''/'' @ ?n) = ''/'' @ ?n"
      using path_normalize_abs_form[OF abs_join_isAbsolute, of ?n]
        rootSegs_abs_join[OF v] False l ne by simp
    then show ?thesis using q by simp
  qed
qed

lemma path_normalize_abs_isAbsolute:
  "path_isAbsolute p \<Longrightarrow> path_isAbsolute (path_normalize p)"
  using path_normalize_abs_form[of p] by (auto simp: path_isAbsolute_def)

lemma resolvePath_path_join_abs:
  assumes "path_isAbsolute d"
  shows "resolvePath h (path_join [d, x]) wsf cd = path_join [d, x]"
proof -
  have d: "d \<noteq> []" "hd d = CHR ''/''" using assms by (auto simp: path_isAbsolute_def)
  let ?j = "js_join ''/'' (filter (\<lambda>a. a \<noteq> []) [d, x])"
  have j: "?j \<noteq> []" "path_isAbsolute ?j" using d by (auto simp: path_isAbsolute_def)
  then have pj: "path_join [d, x] = path_normalize ?j" by (simp add: path_join_def Let_def)
  show ?thesis
    unfolding pj resolvePath_def
    using path_normalize_abs_isAbsolute[OF j(2)] path_normalize_idem_abs[OF j(2)] by simp
qed

lemma createDirectoryFileTransform_Some:
  assumes "createDirectoryFileTransform h dt uri relative u = (Some e, u')"
  shows "endsWith (toLowerCase (path_normalize relative)) (toLowerCase (templateExtension h)) \<and>
         source e = resolvePath h uri (workspaceFolder dt) (sourceDir dt) \<and>
         target e = resolvePath h (path_join [targetDir dt, stripNjkExtension h (path_normalize relative)])
                      (workspaceFolder dt) (sourceDir dt)"
proof -
  let ?spec = "\<lparr>spec_source = uri,
                 spec_target = path_join [targetDir dt, stripNjkExtension h (path_normalize relative)],
                 spec_recursive = None\<rparr>"
  have ew: "endsWith (toLowerCase (path_normalize relative)) (toLowerCase (templateExtension h))"
    using assms by (auto simp: createDirectoryFileTransform_def Let_def split: if_splits)
  obtain r u1 where r: "createFileTransformEntry h ?spec (workspaceFolder dt) (sourceDir dt) u = (r, u1)"
    by (cases "createFileTransformEntry h ?spec (workspaceFolder dt) (sourceDir dt) u")
  then obtain entry where e: "r = Some entry" "e = entry\<lparr>description := dirDescription dt @ '' :: '' @ path_normalize relative\<rparr>"
    using assms by (cases r) (auto simp: createDirectoryFileTransform_def Let_def split: if_splits)
  have "source entry = resolvePath h uri (workspaceFolder dt) (sourceDir dt) \<and>
        target entry = resolvePath h (path_join [targetDir dt, stripNjkExtension h (path_normalize relative)])
                      (workspaceFolder dt) (sourceDir dt)"
    using r e(1) by (auto simp: createFileTransformEntry_def Let_def split: if_splits)
  then show ?thesis using ew e(2) by simp
qed

text \<open>
  Directory expansion with a template extension that is not empty. For a directory
  transform with absolute source and target directories and a source directory that can be
  read (valid names, and every subdirectory listable when the transform is recursive), the
  scan yields exactly the regular files under the source directory whose names end, letter
  case ignored, with the template extension, the whole subtree when recursive and the direct
  children otherwise, each with its path relative to the source directory; and every
  FileTransform made from one of them has that file as its source and, as its target, the
  target directory joined with the relative path without its extension.
\<close>

lemma directory_expansion:
  assumes "fs_lookup (fsCaseInsensitive h) (disk h)
             (segments (path_resolve (processCwd h) [sourceDir dt])) = Some node"
    and "readableTree (recursive dt) node"
    and "path_isAbsolute (sourceDir dt)"
    and "path_isAbsolute (targetDir dt)"
    and "templateExtension h \<noteq> []"
  shows "collectTemplatesFromDirectory h dt = Inr (templatesUnder h dt node) \<and>
         (\<forall>(uri, relative) \<in> set (templatesUnder h dt node). \<forall>u e u'.
            createDirectoryFileTransform h dt uri relative u = (Some e, u') \<longrightarrow>
              source e = uri \<and>
              target e = path_join [targetDir dt,
                           take (length relative - length (templateExtension h)) relative])"
proof -
  have "walkDirectoryForTemplates h (sourceDir dt) (js_join ''/'' []) (recursive dt) node []
        = Inr ([] @ foundTemplates h (sourceDir dt) [] (filesUnder (recursive dt) node))"
    using assms(2,3) by (intro walk_spec(1)) auto
  then have collect: "collectTemplatesFromDirectory h dt = Inr (templatesUnder h dt node)"
    using assms(1) by (simp add: collectTemplatesFromDirectory_def templatesUnder_def)
  have each: "source e = uri \<and>
              target e = path_join [targetDir dt,
                           take (length relative - length (templateExtension h)) relative]"
    if m: "(uri, relative) \<in> set (templatesUnder h dt node)"
      and c: "createDirectoryFileTransform h dt uri relative u = (Some e, u')"
    for uri relative u e u'
  proof -
    from m obtain segs where segs: "segs \<in> set (filesUnder (recursive dt) node)"
      "uri = path_join [sourceDir dt, js_join ''/'' segs]" "relative = js_join ''/'' segs"
      by (auto simp: templatesUnder_def)
    have v: "list_all validName segs" using filesUnder_valid(1)[OF assms(2)] segs(1) by blast
    have ne: "segs \<noteq> []" using filesUnder_nonempty(1) segs(1) by metis
    have nr: "path_normalize relative = relative"
      using path_normalize_relative_valid[OF ne v] segs(3) by simp
    from createDirectoryFileTransform_Some[OF c]
    have ew: "endsWith (toLowerCase relative) (toLowerCase (templateExtension h))"
      and s: "source e = resolvePath h uri (workspaceFolder dt) (sourceDir dt)"
      and t: "target e = resolvePath h (path_join [targetDir dt, stripNjkExtension h relative])
                      (workspaceFolder dt) (sourceDir dt)"
      using nr by simp_all
    have "stripNjkExtension h relative = take (length relative - length (templateExtension h)) relative"
      using ew assms(5) by (simp add: stripNjkExtension_def slice_0_neg_def Let_def)
    then have "target e = path_join [targetDir dt,
                           take (length relative - length (templateExtension h)) relative]"
      using t resolvePath_path_join_abs[OF assms(4)] by simp
    moreover have "source e = uri"
      using s segs(2) resolvePath_path_join_abs[OF assms(3)] by simp
    ultimately show ?thesis by simp
  qed
  show ?thesis using collect each by blast
qed

text \<open>The tree with \<^verbatim>\<open>a.njk\<close> and \<^verbatim>\<open>sub/b.njk\<close>: the targets are \<^verbatim>\<open>target/a\<close> and
  \<^verbatim>\<open>target/sub/b\<close> when recursive, and \<^verbatim>\<open>target/a\<close> alone when not.\<close>

lemma directory_expansion_example:
  "fs_lookup (fsCaseInsensitive linuxHost) (disk linuxHost)
     (segments (path_resolve (processCwd linuxHost) [sourceDir demoDir])) = Some demoSrc \<and>
   readableTree (recursive demoDir) demoSrc \<and>
   path_isAbsolute (sourceDir demoDir) \<and> path_isAbsolute (targetDir demoDir) \<and>
   templateExtension linuxHost \<noteq> [] \<and>
   collectTemplatesFromDirectory linuxHost demoDir
     = Inr [(''/w/src/a.njk'', ''a.njk''), (''/w/src/sub/b.njk'', ''sub/b.njk'')] \<and>
   map target (map snd (fst (expandDirectoryTransform linuxHost demoDir ([], noUi))))
     = [''/w/target/a'', ''/w/target/sub/b''] \<and>
   map target (map snd (fst (expandDirectoryTransform linuxHost
                                (demoDir\<lparr>recursive := False\<rparr>) ([], noUi))))
     = [''/w/target/a'']"
proof -
  have a1: "fs_lookup (fsCaseInsensitive linuxHost) (disk linuxHost)
     (segments (path_resolve (processCwd linuxHost) [sourceDir demoDir])) = Some demoSrc"
    by code_simp
  have a2: "readableTree (recursive demoDir) demoSrc" by code_simp
  have a3: "path_isAbsolute (sourceDir demoDir)" by code_simp
  have a4: "path_isAbsolute (targetDir demoDir)" by code_simp
  have a5: "templateExtension linuxHost \<noteq> []" by code_simp
  have "collectTemplatesFromDirectory linuxHost demoDir = Inr (templatesUnder linuxHost demoDir demoSrc)"
    using directory_expansion[OF a1 a2 a3 a4 a5] by blast
  moreover have "templatesUnder linuxHost demoDir demoSrc
     = [(''/w/src/a.njk'', ''a.njk''), (''/w/src/sub/b.njk'', ''sub/b.njk'')]"
    by code_simp
  ultimately have c: "collectTemplatesFromDirectory linuxHost demoDir
     = Inr [(''/w/src/a.njk'', ''a.njk''), (''/w/src/sub/b.njk'', ''sub/b.njk'')]"
    by simp
  have t1: "map target (map snd (fst (expandDirectoryTransform linuxHost demoDir ([], noUi))))
     = [''/w/target/a'', ''/w/target/sub/b'']"
    by code_simp
  have t2: "map target (map snd (fst (expandDirectoryTransform linuxHost
                                (demoDir\<lparr>recursive := False\<rparr>) ([], noUi))))
     = [''/w/target/a'']"
    by code_simp
  show ?thesis using a1 a2 a3 a4 a5 c t1 t2 by blast
qed

text \<open>
  C5 at the empty template extension. The setting \<^verbatim>\<open>nunjucksu.templateExtension\<close> is a free
  string. When it is empty every file name ends with it, so the scan lists every regular
  file, as the claim says; but \<^verbatim>\<open>stripNjkExtension\<close> computes \<^verbatim>\<open>value.slice(0, -ext.length)\<close>,
  which is \<^verbatim>\<open>value.slice(0, 0)\<close>, the empty string, and not the relative path with nothing
  stripped from it. Every FileTransform produced then has the target directory itself as
  its target, where the claim asks for \<^verbatim>\<open>target/a.njk\<close>, \<^verbatim>\<open>target/sub/b.njk\<close> and
  \<^verbatim>\<open>target/sub/notes.txt\<close>.
\<close>

theorem empty_extension_targets:
  "templateExtension emptyExtensionHost = [] \<and>
   collectTemplatesFromDirectory emptyExtensionHost demoDir
     = Inr [(''/w/src/a.njk'', ''a.njk''), (''/w/src/sub/b.njk'', ''sub/b.njk''),
            (''/w/src/sub/notes.txt'', ''sub/notes.txt'')] \<and>
   stripNjkExtension emptyExtensionHost ''a.njk'' = [] \<and>
   map (\<lambda>e. (source e, target e))
       (map snd (fst (expandDirectoryTransform emptyExtensionHost demoDir ([], noUi))))
     = [(''/w/src/a.njk'', ''/w/target''), (''/w/src/sub/b.njk'', ''/w/target''),
        (''/w/src/sub/notes.txt'', ''/w/target'')] \<and>
   map (\<lambda>relative. path_join [targetDir demoDir, relative]) [''a.njk'', ''sub/b.njk'', ''sub/notes.txt'']
     = [''/w/target/a.njk'', ''/w/target/sub/b.njk'', ''/w/target/sub/notes.txt'']"
  by code_simp

section \<open>Cycle detection and reload always return\<close>

text \<open>
  Every nested call of \<^verbatim>\<open>hasCycle\<close> that goes on to its neighbours has put a new node into
  \<open>visited\<close>, so a depth above the number of nodes not yet visited is never used up.
\<close>

lemma neighborsOf_subset: "set (neighborsOf graph node) \<subseteq> set (graphNodes graph)"
proof (cases "map_of graph node")
  case None
  then show ?thesis by (simp add: neighborsOf_def)
next
  case (Some ns)
  then have "(node, ns) \<in> set graph" by (rule map_of_SomeD)
  then have "set ns \<subseteq> set (concat (map snd graph))" by force
  then show ?thesis using Some by (auto simp: neighborsOf_def graphNodes_def)
qed

lemma hasCycle_returns:
  "finite N \<Longrightarrow> set (graphNodes graph) \<subseteq> N \<Longrightarrow> node \<in> N \<Longrightarrow> card (N - visited s) < depth \<Longrightarrow>
     \<exists>b s'. hasCycle depth graph node s = Some (b, s') \<and> visited s \<subseteq> visited s'"
  "finite N \<Longrightarrow> set (graphNodes graph) \<subseteq> N \<Longrightarrow> set neighbors \<subseteq> N \<Longrightarrow> card (N - visited s) < depth \<Longrightarrow>
     \<exists>b s'. hasCycleLoop depth graph node neighbors s = Some (b, s') \<and> visited s \<subseteq> visited s'"
proof (induction depth graph node s and depth graph node neighbors s rule: hasCycle_hasCycleLoop.induct)
  case (1 graph node s)
  then show ?case by simp
next
  case (2 depth graph node s)
  show ?case
  proof (cases "node \<in> recursionStack s \<or> node \<in> visited s")
    case True
    then show ?thesis by auto
  next
    case False
    let ?s1 = "s\<lparr>visited := insert node (visited s), recursionStack := insert node (recursionStack s)\<rparr>"
    have "node \<in> N - visited s" using "2.prems"(3) False by simp
    then have "card (N - insert node (visited s)) < card (N - visited s)"
      using "2.prems"(1) by (metis Diff_insert card_Diff1_less finite_Diff)
    then have c: "card (N - visited ?s1) < depth" using "2.prems"(4) by simp
    have nb: "set (neighborsOf graph node) \<subseteq> N"
      using neighborsOf_subset "2.prems"(2) by blast
    from "2.IH"[OF _ _ "2.prems"(1,2) nb c] False
    obtain b s' where "hasCycleLoop depth graph node (neighborsOf graph node) ?s1 = Some (b, s')"
      "visited ?s1 \<subseteq> visited s'" by auto
    then show ?thesis using False by auto
  qed
next
  case (3 depth graph node s)
  then show ?case by auto
next
  case (4 depth graph node neighbor neighbors s)
  have nb: "neighbor \<in> N" and nbs: "set neighbors \<subseteq> N" using "4.prems"(3) by auto
  from "4.IH"(1)[OF "4.prems"(1,2) nb "4.prems"(4)]
  obtain b s1 where h: "hasCycle depth graph neighbor s = Some (b, s1)" "visited s \<subseteq> visited s1"
    by auto
  show ?case
  proof (cases b)
    case True
    then show ?thesis using h by auto
  next
    case False
    have "N - visited s1 \<subseteq> N - visited s" using h(2) by auto
    then have "card (N - visited s1) \<le> card (N - visited s)"
      using "4.prems"(1) by (intro card_mono) auto
    then have c: "card (N - visited s1) < depth" using "4.prems"(4) by simp
    have "\<exists>b s'. hasCycleLoop depth graph node neighbors s1 = Some (b, s') \<and> visited s1 \<subseteq> visited s'"
      using "4.IH"(2)[OF h(1) refl _ "4.prems"(1,2) nbs c] False by blast
    then obtain b' s' where "hasCycleLoop depth graph node neighbors s1 = Some (b', s')"
      "visited s1 \<subseteq> visited s'" by auto
    then show ?thesis using h False by auto
  qed
qed

lemma checkAllNodes_returns:
  "finite N \<Longrightarrow> set (graphNodes graph) \<subseteq> N \<Longrightarrow> set nodes \<subseteq> N \<Longrightarrow> card (N - visited s) < depth \<Longrightarrow>
     \<exists>s'. checkAllNodes depth graph nodes s = Some s'"
proof (induction nodes arbitrary: s)
  case Nil
  then show ?case by simp
next
  case (Cons node nodes)
  then have "node \<in> N" by simp
  from hasCycle_returns(1)[OF Cons.prems(1,2) this Cons.prems(4)]
  obtain b s1 where h: "hasCycle depth graph node s = Some (b, s1)" "visited s \<subseteq> visited s1"
    by auto
  have "N - visited s1 \<subseteq> N - visited s" using h(2) by auto
  then have "card (N - visited s1) \<le> card (N - visited s)"
    using Cons.prems(1) by (intro card_mono) auto
  then have "card (N - visited s1) < depth" using Cons.prems(4) by simp
  from Cons.IH[OF Cons.prems(1,2) _ this] Cons.prems(3)
  obtain s' where "checkAllNodes depth graph nodes s1 = Some s'" by auto
  then show ?case using h by simp
qed

lemma detectAndRemoveCycles_returns:
  "\<exists>kept u'. detectAndRemoveCycles h ts u = Some (kept, u')"
proof -
  let ?g = "buildGraph h ts"
  let ?N = "set (graphNodes ?g)"
  have "card (?N - visited \<lparr>visited = {}, recursionStack = {}, cycleNodes = {}\<rparr>) < Suc (length (graphNodes ?g))"
    using card_length[of "graphNodes ?g"] by simp
  moreover have "set (map fst ?g) \<subseteq> ?N" by (simp add: graphNodes_def)
  ultimately obtain s' where "checkAllNodes (Suc (length (graphNodes ?g))) ?g (map fst ?g)
        \<lparr>visited = {}, recursionStack = {}, cycleNodes = {}\<rparr> = Some s'"
    using checkAllNodes_returns[of ?N ?g "map fst ?g"] by blast
  then show ?thesis
    by (cases "removeCycleTransforms h (cycleNodes s') ts u") (simp add: detectAndRemoveCycles_def Let_def)
qed

lemma performReload_returns: "\<exists>c'. performReload h files c = Some c'"
proof -
  obtain kept u' where "detectAndRemoveCycles h (gatheredFileTransforms (gatherConfigs h files (console c)))
           (gatherUi (gatherConfigs h files (console c))) = Some (kept, u')"
    using detectAndRemoveCycles_returns by blast
  then show ?thesis unfolding performReload_def Let_def by (simp only: option.case prod.case) blast
qed

section \<open>The merge of the variables (C3)\<close>

lemma readConfig_cases:
  "readConfig h file u =
     (case cfgSource file of
        ReadFailed message \<Rightarrow> Inl message
      | ParseFailed message \<Rightarrow> Inl message
      | Document doc \<Rightarrow>
          (if doc \<noteq> YNull \<and> \<not> isPlainObject doc then Inl ''Configuration root must be a mapping.''
           else
             (let parsed = (if doc = YNull then YMap [] else doc);
                  s = extractTransformSpecs (getProp parsed ''transforms'') (cfgPath file) u;
                  r = resolveSpecs h (cfgWorkspace file) (path_dirname (cfgPath file)) (fst s) ([], [], snd s)
              in Inr (\<lparr>vars = extractVars (getProp parsed ''vars''), fileTransforms = fst r,
                        dirTransforms = fst (snd r)\<rparr>, snd (snd r)))))"
  by (simp add: readConfig_def Let_def isPlainObject_def split: configSource.splits prod.splits)




lemma objectAssign_Nil [simp]: "objectAssign m [] = m"
  by (simp add: objectAssign_def)



lemma rebuildSourceWatchers_variables [simp]:
  "variables (rebuildSourceWatchers h c) = variables c"
  by (simp add: rebuildSourceWatchers_def Let_def)

lemma rebuildTransformsList_variables [simp]:
  "variables (rebuildTransformsList h c) = variables c"
  by (simp add: rebuildTransformsList_def Let_def)

lemma performTemplateReload_variables [simp]:
  "variables (performTemplateReload h c) = variables c"
proof -
  obtain m u where "fold (expandDirectoryTransform h) (directoryTransforms c) ([], console c) = (m, u)"
    by (cases "fold (expandDirectoryTransform h) (directoryTransforms c) ([], console c)")
  then show ?thesis by (simp add: performTemplateReload_def Let_def)
qed







lemma localeCompareLe_total: "localeCompareLe h a b \<or> localeCompareLe h b a"
  unfolding localeCompareLe_def using Rep_collation[of "collator h"] by blast

lemma localeCompareLe_trans:
  "localeCompareLe h a b \<Longrightarrow> localeCompareLe h b c \<Longrightarrow> localeCompareLe h a c"
  unfolding localeCompareLe_def using Rep_collation[of "collator h"] by blast

lemma set_insertBy: "set (insertBy le x ys) = insert x (set ys)"
  by (induction ys) auto

lemma sorted_insertBy:
  assumes tot: "\<And>a b. le a b \<or> le b a" and tr: "\<And>a b c. le a b \<Longrightarrow> le b c \<Longrightarrow> le a c"
  shows "sorted_wrt le ys \<Longrightarrow> sorted_wrt le (insertBy le x ys)"
proof (induction ys)
  case Nil
  then show ?case by simp
next
  case (Cons y ys)
  show ?case
  proof (cases "le x y")
    case True
    then have "\<forall>z\<in>set ys. le x z" using Cons.prems tr by auto
    then show ?thesis using True Cons.prems by simp
  next
    case False
    then have "le y x" using tot by blast
    then show ?thesis using False Cons by (auto simp: set_insertBy)
  qed
qed

lemma sorted_sortBy:
  assumes tot: "\<And>a b. le a b \<or> le b a" and tr: "\<And>a b c. le a b \<Longrightarrow> le b c \<Longrightarrow> le a c"
  shows "sorted_wrt le (sortBy le xs)"
  unfolding sortBy_def
  by (induction xs) (simp_all add: sorted_insertBy[OF tot tr])

lemma filter_insertBy:
  assumes tr: "\<And>a b c. le a b \<Longrightarrow> le b c \<Longrightarrow> le a c"
  shows "sorted_wrt le ys \<Longrightarrow>
         filter P (insertBy le x ys) = (if P x then insertBy le x (filter P ys) else filter P ys)"
proof (induction ys)
  case Nil
  then show ?case by simp
next
  case (Cons y ys)
  show ?case
  proof (cases "le x y")
    case True
    then have all: "\<forall>z\<in>set ys. le x z" using Cons.prems tr by auto
    have "insertBy le x (filter P ys) = x # filter P ys"
    proof (cases "filter P ys")
      case Nil
      then show ?thesis by simp
    next
      case (Cons z zs)
      then have "z \<in> set (filter P ys)" by simp
      then have "z \<in> set ys" by simp
      then show ?thesis using all Cons by simp
    qed
    then show ?thesis using True by simp
  next
    case False
    then show ?thesis using Cons by simp
  qed
qed

lemma filter_sortBy:
  assumes tot: "\<And>a b. le a b \<or> le b a" and tr: "\<And>a b c. le a b \<Longrightarrow> le b c \<Longrightarrow> le a c"
  shows "filter P (sortBy le xs) = sortBy le (filter P xs)"
proof (induction xs)
  case Nil
  then show ?case by (simp add: sortBy_def)
next
  case (Cons x xs)
  have "sorted_wrt le (sortBy le xs)" by (rule sorted_sortBy[OF tot tr])
  from filter_insertBy[OF tr this] Cons show ?case
    by (simp add: sortBy_def)
qed

lemma set_sortBy: "set (sortBy le xs) = set xs"
  unfolding sortBy_def by (induction xs) (simp_all add: set_insertBy)

lemma length_insertBy: "length (insertBy le x ys) = Suc (length ys)"
  by (induction ys) auto

lemma length_sortBy: "length (sortBy le xs) = length xs"
  unfolding sortBy_def by (induction xs) (simp_all add: length_insertBy)


lemma sortConfigs_filter:
  "filter P (sortConfigs h files) = sortConfigs h (filter P files)"
  unfolding sortConfigs_def
  by (rule filter_sortBy) (use localeCompareLe_total localeCompareLe_trans in blast)+





text \<open>
  C3 as the specification states it: the files are merged in the lexicographic order of their
  paths, letter case ignored. The controller sorts them with \<^verbatim>\<open>localeCompare\<close>, the
  collation of the engine, which puts an underscore before a slash. Of the files
  \<^verbatim>\<open>/w/a/.vscode/c.njk.yaml\<close> and \<^verbatim>\<open>/w/a_b/.vscode/c.njk.yaml\<close> the second is the later one in
  the lexicographic order, so the claim gives \<^verbatim>\<open>k\<close> its value, 2; the controller loads it
  first and \<^verbatim>\<open>k\<close> ends as 1.
\<close>

theorem collation_order_counterexample:
  "map cfgPath (sortBy (\<lambda>a b. lexicographicLe (cfgPath a) (cfgPath b)) [cfgUnderscore, cfgSlash])
     = [''/w/a/.vscode/c.njk.yaml'', ''/w/a_b/.vscode/c.njk.yaml''] \<and>
   foldl objectAssign []
     (map configVars (sortBy (\<lambda>a b. lexicographicLe (cfgPath a) (cfgPath b)) [cfgUnderscore, cfgSlash]))
     = [(''k'', YNum ''2'')] \<and>
   map cfgPath (sortConfigs linuxHost [cfgUnderscore, cfgSlash])
     = [''/w/a_b/.vscode/c.njk.yaml'', ''/w/a/.vscode/c.njk.yaml''] \<and>
   map_option variables (performReload linuxHost [cfgUnderscore, cfgSlash] emptyController)
     = Some [(''k'', YNum ''1'')]"
  by code_simp



section \<open>One bad configuration file does not stop the reload (C9)\<close>

subsection \<open>What is gathered does not depend on the output channel\<close>

lemma createFileTransformEntry_fst:
  "fst (createFileTransformEntry h spec w d u) = fst (createFileTransformEntry h spec w d u')"
  by (simp add: createFileTransformEntry_def Let_def)

lemma specsOfSequence_fst:
  "fst (specsOfSequence p es (specs, u)) = fst (specsOfSequence p es (specs, u'))"
  by (induction es arbitrary: specs u u') (auto split: option.splits)

lemma specsOfMapping_fst:
  "fst (specsOfMapping p es (specs, u)) = fst (specsOfMapping p es (specs, u'))"
proof (induction es arbitrary: specs u u')
  case Nil
  then show ?case by simp
next
  case (Cons e es)
  obtain k v where e: "e = (k, v)" by (cases e)
  show ?case unfolding e by (simp add: Let_def Cons)
qed

lemma extractTransformSpecs_fst:
  "fst (extractTransformSpecs raw p u) = fst (extractTransformSpecs raw p u')"
proof (cases raw)
  case None
  then show ?thesis by (simp add: extractTransformSpecs_def falsy_def)
next
  case (Some v)
  then show ?thesis
    using specsOfSequence_fst[of p _ "[]" u u'] specsOfMapping_fst[of p _ "[]" u u']
    by (cases v) (simp_all add: extractTransformSpecs_def Let_def)
qed

lemma resolveSpecs_fst:
  "fst (resolveSpecs h w d specs (fts, dts, u)) = fst (resolveSpecs h w d specs (fts, dts, u')) \<and>
   fst (snd (resolveSpecs h w d specs (fts, dts, u))) = fst (snd (resolveSpecs h w d specs (fts, dts, u')))"
proof (induction specs arbitrary: fts dts u u')
  case Nil
  then show ?case by simp
next
  case (Cons spec specs)
  show ?case
  proof (cases "spec_recursive spec \<noteq> None")
    case True
    then show ?thesis using Cons by (simp split: option.splits)
  next
    case False
    obtain r u1 where a: "createFileTransformEntry h spec w d u = (r, u1)"
      by (cases "createFileTransformEntry h spec w d u")
    obtain r' u1' where b: "createFileTransformEntry h spec w d u' = (r', u1')"
      by (cases "createFileTransformEntry h spec w d u'")
    have "r = r'" using createFileTransformEntry_fst[of h spec w d u u'] a b by simp
    then show ?thesis using False a b Cons by (cases r') simp_all
  qed
qed

lemma resolve_extract_fst:
  "fst (resolveSpecs h w d (fst (extractTransformSpecs raw p u))
          ([], [], snd (extractTransformSpecs raw p u)))
   = fst (resolveSpecs h w d (fst (extractTransformSpecs raw p u'))
          ([], [], snd (extractTransformSpecs raw p u')))"
  "fst (snd (resolveSpecs h w d (fst (extractTransformSpecs raw p u))
          ([], [], snd (extractTransformSpecs raw p u))))
   = fst (snd (resolveSpecs h w d (fst (extractTransformSpecs raw p u'))
          ([], [], snd (extractTransformSpecs raw p u'))))"
  unfolding extractTransformSpecs_fst[of raw p u u'] using resolveSpecs_fst by blast+

lemma readConfig_independent:
  "map_sum id fst (readConfig h f u) = map_sum id fst (readConfig h f u')"
proof (cases "cfgSource f")
  case (Document doc)
  show ?thesis
    unfolding readConfig_cases Document
    by (simp add: Let_def resolve_extract_fst[of h _ _ _ _ u u'])
qed (simp_all add: readConfig_cases)

lemma loadConfig_data:
  assumes "gatheredData g = gatheredData g'"
  shows "gatheredData (loadConfig h f g) = gatheredData (loadConfig h f g')"
proof -
  have i: "map_sum id fst (readConfig h f (gatherUi g)) = map_sum id fst (readConfig h f (gatherUi g'))"
    by (rule readConfig_independent)
  show ?thesis
  proof (cases "readConfig h f (gatherUi g)")
    case (Inl m)
    then have "readConfig h f (gatherUi g') = Inl m"
      using i by (cases "readConfig h f (gatherUi g')") auto
    then show ?thesis using Inl assms by (simp add: loadConfig_def gatheredData_def)
  next
    case (Inr p)
    then obtain p' where p': "readConfig h f (gatherUi g') = Inr p'" "fst p' = fst p"
      using i by (cases "readConfig h f (gatherUi g')") auto
    then show ?thesis using Inr assms
      by (cases p; cases p') (simp add: loadConfig_def gatheredData_def)
  qed
qed

lemma readConfig_fails:
  "failsToLoad f \<Longrightarrow> readConfig h f u = Inl (failureMessage f)"
  unfolding readConfig_cases
  by (cases "cfgSource f") (simp_all add: failsToLoad_def failureMessage_def)

lemma loadConfig_fails:
  "failsToLoad f \<Longrightarrow>
   loadConfig h f g =
     g\<lparr>gatherUi :=
         showWarningMessage (''Nunjucksu: unable to read '' @ path_basename (cfgPath f)
                             @ ''. Check the output channel for details.'')
           (appendLine (failedToLoadLine f) (gatherUi g))\<rparr>"
  by (simp add: loadConfig_def readConfig_fails failedToLoadLine_def)

lemma loadConfig_fails_data:
  "failsToLoad f \<Longrightarrow> gatheredData (loadConfig h f g) = gatheredData g"
  by (simp add: loadConfig_fails gatheredData_def)

lemma fold_loadConfig_skips:
  assumes "gatheredData g = gatheredData g'"
  shows "gatheredData (fold (loadConfig h) fs g)
         = gatheredData (fold (loadConfig h) (filter (\<lambda>f. \<not> failsToLoad f) fs) g')"
  using assms
proof (induction fs arbitrary: g g')
  case Nil
  then show ?case by simp
next
  case (Cons f fs)
  show ?case
  proof (cases "failsToLoad f")
    case True
    then have "gatheredData (loadConfig h f g) = gatheredData g'"
      using Cons.prems loadConfig_fails_data by simp
    from Cons.IH[OF this] True show ?thesis by simp
  next
    case False
    have "gatheredData (loadConfig h f g) = gatheredData (loadConfig h f g')"
      using Cons.prems by (rule loadConfig_data)
    from Cons.IH[OF this] False show ?thesis by simp
  qed
qed

lemma gatherConfigs_skips:
  "gatheredData (gatherConfigs h files u)
   = gatheredData (gatherConfigs h (filter (\<lambda>f. \<not> failsToLoad f) files) u')"
  unfolding gatherConfigs_def sortConfigs_filter[symmetric]
  by (rule fold_loadConfig_skips) (simp add: gatheredData_def)

lemma removeCycleTransforms_fst:
  "fst (removeCycleTransforms h cyc ts u) = fst (removeCycleTransforms h cyc ts u')"
proof (induction ts arbitrary: u u')
  case Nil
  then show ?case by simp
next
  case (Cons t ts)
  show ?case
  proof (cases "normalizeFsPath h (source t) \<in> cyc \<or> normalizeFsPath h (target t) \<in> cyc")
    case True
    then show ?thesis using Cons by simp
  next
    case False
    then show ?thesis using Cons[of u u'] by (simp add: case_prod_beta)
  qed
qed

lemma detectAndRemoveCycles_independent:
  "map_option fst (detectAndRemoveCycles h ts u) = map_option fst (detectAndRemoveCycles h ts u')"
  using removeCycleTransforms_fst[of h _ ts u u']
  by (simp add: detectAndRemoveCycles_def Let_def split: option.splits)

subsection \<open>The output channel only grows\<close>

lemma grows_refl [simp]: "grows u u"
  by (simp add: grows_def)

lemma grows_trans: "grows u v \<Longrightarrow> grows v w \<Longrightarrow> grows u w"
  unfolding grows_def by (rule prefix_order.trans)

lemma grows_appendLine [simp]: "grows u (appendLine m u)"
  by (simp add: grows_def appendLine_def)

lemma grows_showWarningMessage [simp]: "grows u (showWarningMessage m u)"
  by (simp add: grows_def showWarningMessage_def)

lemma grows_log [simp]: "grows u (log h m l u)"
  by (simp add: log_def)

lemma grows_warn_append [simp]: "grows u (showWarningMessage m (appendLine m' u))"
  by (simp add: grows_def showWarningMessage_def appendLine_def)

lemma grows_createFileTransformEntry: "grows u (snd (createFileTransformEntry h spec w d u))"
  by (simp add: createFileTransformEntry_def Let_def)

lemma grows_createDirectoryFileTransform:
  "grows u (snd (createDirectoryFileTransform h dt uri rel u))"
proof -
  let ?spec = "\<lparr>spec_source = uri,
                 spec_target = path_join [targetDir dt, stripNjkExtension h (path_normalize rel)],
                 spec_recursive = None\<rparr>"
  have "grows u (snd (createFileTransformEntry h ?spec (workspaceFolder dt) (sourceDir dt) u))"
    by (rule grows_createFileTransformEntry)
  then show ?thesis
    by (cases "createFileTransformEntry h ?spec (workspaceFolder dt) (sourceDir dt) u")
       (auto simp: createDirectoryFileTransform_def Let_def split: option.splits)
qed

lemma grows_fold_templates:
  "grows u (snd (fold (\<lambda>(uri, relative) (m, u).
                  (case createDirectoryFileTransform h dt uri relative u of
                     (None, u') \<Rightarrow> (m, u')
                   | (Some entry, u') \<Rightarrow>
                       (AList.update (normalizeFsPath h (source entry)) entry m, u')))
               templates (m, u)))"
proof (induction templates arbitrary: m u)
  case Nil
  then show ?case by simp
next
  case (Cons t templates)
  obtain uri rel where t: "t = (uri, rel)" by (cases t)
  obtain r u1 where c: "createDirectoryFileTransform h dt uri rel u = (r, u1)"
    by (cases "createDirectoryFileTransform h dt uri rel u")
  have g: "grows u u1" using grows_createDirectoryFileTransform[of u h dt uri rel] c by simp
  show ?case
    unfolding t using c g Cons by (cases r) (auto intro: grows_trans)
qed

lemma grows_expandDirectoryTransform:
  "grows (snd acc) (snd (expandDirectoryTransform h dt acc))"
proof (cases "collectTemplatesFromDirectory h dt")
  case (Inl e)
  then show ?thesis by (cases e) (simp add: expandDirectoryTransform_def)
next
  case (Inr templates)
  then show ?thesis
    using grows_fold_templates[of "snd acc" h dt templates "fst acc"]
    by (simp add: expandDirectoryTransform_def)
qed

lemma grows_fold_expand:
  "grows (snd acc) (snd (fold (expandDirectoryTransform h) dts acc))"
proof (induction dts arbitrary: acc)
  case Nil
  then show ?case by simp
next
  case (Cons dt dts)
  show ?case
    using grows_expandDirectoryTransform[of acc h dt] Cons[of "expandDirectoryTransform h dt acc"]
    by (auto intro: grows_trans)
qed

lemma rebuild_console [simp]:
  "console (rebuildTransformsList h c) = console c"
  "console (rebuildSourceWatchers h c) = console c"
  by (simp_all add: rebuildTransformsList_def rebuildSourceWatchers_def Let_def)

lemma grows_performTemplateReload: "grows (console c) (console (performTemplateReload h c))"
proof -
  obtain m u where mu: "fold (expandDirectoryTransform h) (directoryTransforms c) ([], console c) = (m, u)"
    by (cases "fold (expandDirectoryTransform h) (directoryTransforms c) ([], console c)")
  have "grows (console c) u"
    using grows_fold_expand[of "([], console c)" h "directoryTransforms c"] mu by simp
  then show ?thesis
    by (auto simp: performTemplateReload_def Let_def mu intro: grows_trans)
qed

lemma grows_specsOfSequence: "grows u (snd (specsOfSequence p es (specs, u)))"
proof (induction es arbitrary: specs u)
  case Nil
  then show ?case by simp
next
  case (Cons e es)
  show ?case
  proof (cases "normalizeTransform e")
    case None
    then show ?thesis
      using Cons[of "appendLine (''Nunjucksu: skipped invalid transform entry in '' @ p @ ''.'') u" specs]
      by (auto intro: grows_trans grows_appendLine)
  next
    case (Some n)
    then show ?thesis using Cons by simp
  qed
qed

lemma grows_specsOfMapping: "grows u (snd (specsOfMapping p es (specs, u)))"
proof (induction es arbitrary: specs u)
  case Nil
  then show ?case by simp
next
  case (Cons e es)
  obtain k v where e: "e = (k, v)" by (cases e)
  show ?case
    unfolding e
    using Cons[of u] Cons[of "appendLine (''Nunjucksu: transform '' @ [CHR 0x27] @ k @ [CHR 0x27]
                                @ '' in '' @ p @ '' is invalid and was ignored.'') u" specs]
    by (auto simp: Let_def intro: grows_trans grows_appendLine)
qed

lemma grows_extractTransformSpecs: "grows u (snd (extractTransformSpecs raw p u))"
proof (cases raw)
  case None
  then show ?thesis by (simp add: extractTransformSpecs_def falsy_def)
next
  case (Some v)
  then show ?thesis
    using grows_specsOfSequence[of u p _ "[]"] grows_specsOfMapping[of u p _ "[]"]
    by (cases v) (simp_all add: extractTransformSpecs_def Let_def)
qed

lemma grows_resolveSpecs: "grows u (snd (snd (resolveSpecs h w d specs (fts, dts, u))))"
proof (induction specs arbitrary: fts dts u)
  case Nil
  then show ?case by simp
next
  case (Cons spec specs)
  show ?case
  proof (cases "spec_recursive spec \<noteq> None")
    case True
    then show ?thesis using Cons by (simp split: option.splits)
  next
    case False
    obtain r u1 where a: "createFileTransformEntry h spec w d u = (r, u1)"
      by (cases "createFileTransformEntry h spec w d u")
    have "grows u u1" using grows_createFileTransformEntry[of u h spec w d] a by simp
    then show ?thesis using False a Cons[of u1] by (cases r) (auto intro: grows_trans)
  qed
qed

lemma grows_readConfig: "readConfig h f u = Inr (r, u') \<Longrightarrow> grows u u'"
proof (cases "cfgSource f")
  case (Document doc)
  assume a: "readConfig h f u = Inr (r, u')"
  define raw where "raw = getProp (if doc = YNull then YMap [] else doc) ''transforms''"
  define s where "s = extractTransformSpecs raw (cfgPath f) u"
  have "u' = snd (snd (resolveSpecs h (cfgWorkspace f) (path_dirname (cfgPath f)) (fst s) ([], [], snd s)))"
    using a unfolding readConfig_cases Document s_def raw_def by (simp add: Let_def split: if_splits)
  moreover have "grows u (snd s)" unfolding s_def by (rule grows_extractTransformSpecs)
  ultimately show ?thesis using grows_resolveSpecs[of "snd s" h _ _ "fst s" "[]" "[]"]
    by (auto intro: grows_trans)
qed (simp_all add: readConfig_cases)

lemma grows_loadConfig: "grows (gatherUi g) (gatherUi (loadConfig h f g))"
proof (cases "readConfig h f (gatherUi g)")
  case (Inl m)
  then show ?thesis by (simp add: loadConfig_def)
next
  case (Inr p)
  then show ?thesis using grows_readConfig[of h f "gatherUi g" "fst p" "snd p"]
    by (cases p) (simp add: loadConfig_def)
qed

lemma grows_fold_loadConfig: "grows (gatherUi g) (gatherUi (fold (loadConfig h) fs g))"
proof (induction fs arbitrary: g)
  case Nil
  then show ?case by simp
next
  case (Cons f fs)
  show ?case using grows_loadConfig[of g h f] Cons[of "loadConfig h f g"]
    by (auto intro: grows_trans)
qed

lemma grows_removeCycleTransforms: "grows u (snd (removeCycleTransforms h cyc ts u))"
proof (induction ts arbitrary: u)
  case Nil
  then show ?case by simp
next
  case (Cons t ts)
  show ?case
  proof (cases "normalizeFsPath h (source t) \<in> cyc \<or> normalizeFsPath h (target t) \<in> cyc")
    case True
    then show ?thesis
      using Cons[of "showWarningMessage (''Nunjucksu: cycle detected in transforms involving ''
                                  @ path_basename (source t))
                (appendLine (''Nunjucksu: removed transform '' @ description t
                             @ '' (part of cycle)'') u)"]
      by (auto intro: grows_trans grows_warn_append)
  next
    case False
    then show ?thesis using Cons[of u] by (simp add: case_prod_beta)
  qed
qed

lemma grows_detectAndRemoveCycles:
  "detectAndRemoveCycles h ts u = Some (kept, u') \<Longrightarrow> grows u u'"
proof -
  assume "detectAndRemoveCycles h ts u = Some (kept, u')"
  then obtain s :: dfs where "removeCycleTransforms h (cycleNodes s) ts u = (kept, u')"
    by (auto simp: detectAndRemoveCycles_def Let_def split: option.splits)
  then show ?thesis using grows_removeCycleTransforms[of u h "cycleNodes s" ts] by simp
qed

lemma grows_mem: "grows u u' \<Longrightarrow> l \<in> set (outputLines u) \<Longrightarrow> l \<in> set (outputLines u')"
  unfolding grows_def using set_mono_prefix by blast

lemma failed_line_reported:
  assumes "f \<in> set fs" "failsToLoad f"
  shows "failedToLoadLine f \<in> set (outputLines (gatherUi (fold (loadConfig h) fs g)))"
  using assms(1)
proof (induction fs arbitrary: g)
  case Nil
  then show ?case by simp
next
  case (Cons x fs)
  show ?case
  proof (cases "x = f")
    case True
    have "failedToLoadLine f \<in> set (outputLines (gatherUi (loadConfig h f g)))"
      using assms(2) by (simp add: loadConfig_fails showWarningMessage_def appendLine_def)
    then show ?thesis
      using True grows_mem[OF grows_fold_loadConfig[of "loadConfig h f g" h fs]] by simp
  next
    case False
    then show ?thesis using Cons by simp
  qed
qed

lemma performTemplateReload_fields [simp]:
  "configFileTransforms (performTemplateReload h c) = configFileTransforms c"
  "directoryTransforms (performTemplateReload h c) = directoryTransforms c"
proof -
  obtain m u where mu: "fold (expandDirectoryTransform h) (directoryTransforms c) ([], console c) = (m, u)"
    by (cases "fold (expandDirectoryTransform h) (directoryTransforms c) ([], console c)")
  show "configFileTransforms (performTemplateReload h c) = configFileTransforms c"
    "directoryTransforms (performTemplateReload h c) = directoryTransforms c"
    by (simp_all add: performTemplateReload_def Let_def mu rebuildTransformsList_def rebuildSourceWatchers_def)
qed

lemma performReload_Some:
  assumes "performReload h files c = Some c'"
  shows "\<exists>kept u. detectAndRemoveCycles h (gatheredFileTransforms (gatherConfigs h files (console c)))
                     (gatherUi (gatherConfigs h files (console c))) = Some (kept, u) \<and>
          variables c' = mergedVars (gatherConfigs h files (console c)) \<and>
          configFileTransforms c' = kept \<and>
          directoryTransforms c' = gatheredDirectoryTransforms (gatherConfigs h files (console c)) \<and>
          grows u (console c')"
proof -
  let ?g = "gatherConfigs h files (console c)"
  obtain kept u where d: "detectAndRemoveCycles h (gatheredFileTransforms ?g) (gatherUi ?g) = Some (kept, u)"
    using detectAndRemoveCycles_returns by blast
  define u' where "u' = (if files \<noteq> [] then
                          log h (''Nunjucksu: loaded '' @ showNat (length (gatheredFileTransforms ?g))
                                 @ '' file transform(s) and ''
                                 @ showNat (length (gatheredDirectoryTransforms ?g))
                                 @ '' directory transform(s) from '' @ showNat (length files)
                                 @ '' config file(s).'') Verbose u
                        else u)"
  define c0 where "c0 = c\<lparr>variables := mergedVars ?g, configFileTransforms := kept,
                            directoryTransforms := gatheredDirectoryTransforms ?g, console := u'\<rparr>"
  have c': "c' = performTemplateReload h c0"
    using assms d unfolding performReload_def Let_def c0_def u'_def by simp
  have "grows u u'" by (simp add: u'_def)
  moreover have "grows u' (console c')"
    using grows_performTemplateReload[of c0 h] by (simp add: c' c0_def)
  ultimately have "grows u (console c')" by (rule grows_trans)
  then show ?thesis using d by (simp add: c' c0_def)
qed

lemma createDirectoryFileTransform_fst:
  "fst (createDirectoryFileTransform h dt uri rel u) = fst (createDirectoryFileTransform h dt uri rel u')"
proof -
  let ?spec = "\<lparr>spec_source = uri,
                 spec_target = path_join [targetDir dt, stripNjkExtension h (path_normalize rel)],
                 spec_recursive = None\<rparr>"
  have "fst (createFileTransformEntry h ?spec (workspaceFolder dt) (sourceDir dt) u)
        = fst (createFileTransformEntry h ?spec (workspaceFolder dt) (sourceDir dt) u')"
    by (rule createFileTransformEntry_fst)
  then show ?thesis
    by (cases "createFileTransformEntry h ?spec (workspaceFolder dt) (sourceDir dt) u";
        cases "createFileTransformEntry h ?spec (workspaceFolder dt) (sourceDir dt) u'")
       (auto simp: createDirectoryFileTransform_def Let_def split: option.splits)
qed

lemma fold_templates_fst:
  "fst (fold (\<lambda>(uri, relative) (m, u).
                  (case createDirectoryFileTransform h dt uri relative u of
                     (None, u') \<Rightarrow> (m, u')
                   | (Some entry, u') \<Rightarrow>
                       (AList.update (normalizeFsPath h (source entry)) entry m, u')))
               templates (m, u))
   = fst (fold (\<lambda>(uri, relative) (m, u).
                  (case createDirectoryFileTransform h dt uri relative u of
                     (None, u') \<Rightarrow> (m, u')
                   | (Some entry, u') \<Rightarrow>
                       (AList.update (normalizeFsPath h (source entry)) entry m, u')))
               templates (m, v))"
proof (induction templates arbitrary: m u v)
  case Nil
  then show ?case by simp
next
  case (Cons t templates)
  obtain uri rel where t: "t = (uri, rel)" by (cases t)
  obtain r u1 where a: "createDirectoryFileTransform h dt uri rel u = (r, u1)"
    by (cases "createDirectoryFileTransform h dt uri rel u")
  obtain r' v1 where b: "createDirectoryFileTransform h dt uri rel v = (r', v1)"
    by (cases "createDirectoryFileTransform h dt uri rel v")
  have "r = r'" using createDirectoryFileTransform_fst[of h dt uri rel u v] a b by simp
  then show ?case unfolding t using a b Cons by (cases r') simp_all
qed

lemma expandDirectoryTransform_fst:
  "fst (expandDirectoryTransform h dt (m, u)) = fst (expandDirectoryTransform h dt (m, v))"
proof (cases "collectTemplatesFromDirectory h dt")
  case (Inl e)
  then show ?thesis by (cases e) (simp add: expandDirectoryTransform_def)
next
  case (Inr templates)
  then show ?thesis using fold_templates_fst[of h dt templates m u v]
    by (simp add: expandDirectoryTransform_def)
qed

lemma fold_expand_fst:
  "fst (fold (expandDirectoryTransform h) dts (m, u)) = fst (fold (expandDirectoryTransform h) dts (m, v))"
proof (induction dts arbitrary: m u v)
  case Nil
  then show ?case by simp
next
  case (Cons dt dts)
  obtain m1 u1 where a: "expandDirectoryTransform h dt (m, u) = (m1, u1)"
    by (cases "expandDirectoryTransform h dt (m, u)")
  obtain m2 v1 where b: "expandDirectoryTransform h dt (m, v) = (m2, v1)"
    by (cases "expandDirectoryTransform h dt (m, v)")
  have "m1 = m2" using expandDirectoryTransform_fst[of h dt m u v] a b by simp
  then show ?case using a b Cons by simp
qed

lemma performTemplateReload_transforms:
  assumes "configFileTransforms c = configFileTransforms c'"
    and "directoryTransforms c = directoryTransforms c'"
  shows "transforms (performTemplateReload h c) = transforms (performTemplateReload h c')"
proof -
  obtain m u where a: "fold (expandDirectoryTransform h) (directoryTransforms c) ([], console c) = (m, u)"
    by (cases "fold (expandDirectoryTransform h) (directoryTransforms c) ([], console c)")
  obtain m' u' where b: "fold (expandDirectoryTransform h) (directoryTransforms c') ([], console c') = (m', u')"
    by (cases "fold (expandDirectoryTransform h) (directoryTransforms c') ([], console c')")
  have "m = m'"
    using fold_expand_fst[of h "directoryTransforms c" "[]" "console c" "console c'"] a b assms(2)
    by simp
  then show ?thesis
    using assms(1) by (simp add: performTemplateReload_def Let_def a b rebuildTransformsList_def)
qed

text \<open>
  C9: during a configuration reload, the files that fail to load (the read fails, the parser
  throws, or the root is not a mapping) are skipped and nothing else: the reload returns, and
  its variables, explicit file transforms, directory transforms and combined transform list
  are those of a reload of the other files alone; and for every file that failed the output
  channel holds the line that reports it.
\<close>

theorem bad_config_skipped:
  "\<exists>c1 c2. performReload h files c = Some c1 \<and>
           performReload h (filter (\<lambda>f. \<not> failsToLoad f) files) c = Some c2 \<and>
           variables c1 = variables c2 \<and>
           configFileTransforms c1 = configFileTransforms c2 \<and>
           directoryTransforms c1 = directoryTransforms c2 \<and>
           transforms c1 = transforms c2 \<and>
           (\<forall>f\<in>set files. failsToLoad f \<longrightarrow> failedToLoadLine f \<in> set (outputLines (console c1)))"
proof -
  let ?good = "filter (\<lambda>f. \<not> failsToLoad f) files"
  let ?g1 = "gatherConfigs h files (console c)"
  let ?g2 = "gatherConfigs h ?good (console c)"
  obtain c1 where r1: "performReload h files c = Some c1" using performReload_returns by blast
  obtain c2 where r2: "performReload h ?good c = Some c2" using performReload_returns by blast
  from performReload_Some[OF r1] obtain k1 u1 where
    d1: "detectAndRemoveCycles h (gatheredFileTransforms ?g1) (gatherUi ?g1) = Some (k1, u1)"
    and f1: "variables c1 = mergedVars ?g1" "configFileTransforms c1 = k1"
      "directoryTransforms c1 = gatheredDirectoryTransforms ?g1" and gr: "grows u1 (console c1)"
    by blast
  from performReload_Some[OF r2] obtain k2 u2 where
    d2: "detectAndRemoveCycles h (gatheredFileTransforms ?g2) (gatherUi ?g2) = Some (k2, u2)"
    and f2: "variables c2 = mergedVars ?g2" "configFileTransforms c2 = k2"
      "directoryTransforms c2 = gatheredDirectoryTransforms ?g2"
    by blast
  have data: "gatheredData ?g1 = gatheredData ?g2" by (rule gatherConfigs_skips)
  then have same: "mergedVars ?g1 = mergedVars ?g2"
    "gatheredFileTransforms ?g1 = gatheredFileTransforms ?g2"
    "gatheredDirectoryTransforms ?g1 = gatheredDirectoryTransforms ?g2"
    by (simp_all add: gatheredData_def)
  have "k1 = k2"
    using detectAndRemoveCycles_independent[of h "gatheredFileTransforms ?g1" "gatherUi ?g1" "gatherUi ?g2"]
      d1 d2 same(2) by simp
  then have eqs: "variables c1 = variables c2" "configFileTransforms c1 = configFileTransforms c2"
    "directoryTransforms c1 = directoryTransforms c2"
    using f1 f2 same by simp_all
  have tr: "transforms c1 = transforms c2"
  proof -
    let ?u1 = "if files \<noteq> [] then
                 log h (''Nunjucksu: loaded '' @ showNat (length (gatheredFileTransforms ?g1))
                        @ '' file transform(s) and '' @ showNat (length (gatheredDirectoryTransforms ?g1))
                        @ '' directory transform(s) from '' @ showNat (length files)
                        @ '' config file(s).'') Verbose u1
               else u1"
    let ?u2 = "if ?good \<noteq> [] then
                 log h (''Nunjucksu: loaded '' @ showNat (length (gatheredFileTransforms ?g2))
                        @ '' file transform(s) and '' @ showNat (length (gatheredDirectoryTransforms ?g2))
                        @ '' directory transform(s) from '' @ showNat (length ?good)
                        @ '' config file(s).'') Verbose u2
               else u2"
    let ?a = "c\<lparr>variables := mergedVars ?g1, configFileTransforms := k1,
                 directoryTransforms := gatheredDirectoryTransforms ?g1, console := ?u1\<rparr>"
    let ?b = "c\<lparr>variables := mergedVars ?g2, configFileTransforms := k2,
                 directoryTransforms := gatheredDirectoryTransforms ?g2, console := ?u2\<rparr>"
    have c1: "c1 = performTemplateReload h ?a"
      using r1 d1 unfolding performReload_def Let_def by simp
    have c2: "c2 = performTemplateReload h ?b"
      using r2 d2 unfolding performReload_def Let_def by simp
    have "transforms (performTemplateReload h ?a) = transforms (performTemplateReload h ?b)"
      using \<open>k1 = k2\<close> same(3) by (intro performTemplateReload_transforms) simp_all
    then show ?thesis unfolding c1 c2 .
  qed
  have rep: "failedToLoadLine f \<in> set (outputLines (console c1))" if "f \<in> set files" "failsToLoad f" for f
  proof -
    have "f \<in> set (sortConfigs h files)" using that(1) by (simp add: sortConfigs_def set_sortBy)
    then have "failedToLoadLine f \<in> set (outputLines (gatherUi ?g1))"
      unfolding gatherConfigs_def using failed_line_reported[OF _ that(2)] by blast
    then have "failedToLoadLine f \<in> set (outputLines u1)"
      using grows_mem[OF grows_detectAndRemoveCycles[OF d1]] by blast
    then show ?thesis using grows_mem[OF gr] by blast
  qed
  show ?thesis using r1 r2 eqs tr rep by blast
qed

theorem bad_config_skipped_witness:
  "failsToLoad cfgBroken \<and> failsToLoad cfgSequence \<and>
   map_option (\<lambda>c. (variables c, map target (transforms c)))
     (performReload linuxHost [cfgSecond, cfgBroken, cfgSequence, cfgFirst] emptyController)
     = Some ([(''nested'', YMap [(''b'', YNum ''9''), (''c'', YNum ''3'')])], [''/w/out/a'']) \<and>
   list_all (\<lambda>l. l \<in> set (case performReload linuxHost [cfgSecond, cfgBroken, cfgSequence, cfgFirst]
                                  emptyController of
                             Some c1 \<Rightarrow> outputLines (console c1) | None \<Rightarrow> []))
     [''Nunjucksu: failed to load /w/.vscode/broken.njk.yaml: Unexpected token'',
      ''Nunjucksu: failed to load /w/.vscode/c.njk.yaml: Configuration root must be a mapping.'']"
proof -
  let ?files = "[cfgSecond, cfgBroken, cfgSequence, cfgFirst]"
  obtain c1 c2 where r: "performReload linuxHost ?files emptyController = Some c1"
    "performReload linuxHost (filter (\<lambda>f. \<not> failsToLoad f) ?files) emptyController = Some c2"
    "variables c1 = variables c2" "transforms c1 = transforms c2"
    "\<forall>f\<in>set ?files. failsToLoad f \<longrightarrow> failedToLoadLine f \<in> set (outputLines (console c1))"
    using bad_config_skipped[of linuxHost ?files emptyController] by blast
  have b: "failsToLoad cfgBroken" "failsToLoad cfgSequence" by code_simp+
  have good: "filter (\<lambda>f. \<not> failsToLoad f) ?files = [cfgSecond, cfgFirst]" by code_simp
  have "map_option (\<lambda>c. (variables c, map target (transforms c)))
     (performReload linuxHost [cfgSecond, cfgFirst] emptyController)
     = Some ([(''nested'', YMap [(''b'', YNum ''9''), (''c'', YNum ''3'')])], [''/w/out/a''])"
    by code_simp
  then have v: "variables c1 = [(''nested'', YMap [(''b'', YNum ''9''), (''c'', YNum ''3'')])]"
    "map target (transforms c1) = [''/w/out/a'']"
    using r(2,3,4) good by simp_all
  have l1: "failedToLoadLine cfgBroken = ''Nunjucksu: failed to load /w/.vscode/broken.njk.yaml: Unexpected token''"
    by code_simp
  have l2: "failedToLoadLine cfgSequence = ''Nunjucksu: failed to load /w/.vscode/c.njk.yaml: Configuration root must be a mapping.''"
    by code_simp
  have "failedToLoadLine cfgBroken \<in> set (outputLines (console c1))"
    "failedToLoadLine cfgSequence \<in> set (outputLines (console c1))"
    using r(5) b by simp_all
  then show ?thesis using b v r(1) unfolding l1 l2 by simp
qed

section \<open>Writing a target (C6, C10)\<close>

lemma createDirectory_cases:
  "createDirectory p st =
     (if list_ex (\<lambda>q. fileContents st q \<noteq> None) (ancestorDirs p)
      then (Some (FileExists p), st\<lparr>calls := calls st @ [CreateDirectory p]\<rparr>)
      else (None, st\<lparr>calls := calls st @ [CreateDirectory p],
                     dirs := dirs st \<union> set (ancestorDirs p)\<rparr>))"
  by (simp add: createDirectory_def Let_def)

text \<open>The four ways through \<^verbatim>\<open>writeTarget\<close>.\<close>

lemma writeTarget_cases:
  "writeTarget uri contents st =
     (let d = path_dirname uri;
          st1 = st\<lparr>calls := calls st @ [CreateDirectory d]\<rparr>;
          st2 = st\<lparr>calls := calls st @ [CreateDirectory d, ReadFile uri],
                   dirs := dirs st \<union> set (ancestorDirs d)\<rparr>;
          st3 = st\<lparr>calls := calls st @ [CreateDirectory d, ReadFile uri, WriteFile uri (utf8 contents)],
                   dirs := dirs st \<union> set (ancestorDirs d)\<rparr>
      in if list_ex (\<lambda>q. fileContents st q \<noteq> None) (ancestorDirs d) then (Some (FileExists d), st1)
         else if fileContents st uri = Some (utf8 contents) then (None, st2)
         else if uri \<in> dirs st \<union> set (ancestorDirs d) then (Some (FileIsADirectory uri), st3)
         else if uri \<in> readOnly st then (Some (NoPermissions uri), st3)
         else (None, st3\<lparr>fileContents := (fileContents st)(uri \<mapsto> utf8 contents)\<rparr>))"
  by (cases "fileContents st uri")
     (simp_all add: writeTarget_def createDirectory_cases readFile_def writeFile_def Let_def)

lemma writeTarget_resolved_files:
  "fst (writeTarget uri contents st) = None \<Longrightarrow>
   fileContents (snd (writeTarget uri contents st)) uri = Some (utf8 contents)"
  by (simp add: writeTarget_cases Let_def split: if_splits)

lemma writeCalls_append:
  "writeCalls (st\<lparr>calls := calls st @ cs\<rparr>)
   = writeCalls st + length (filter (\<lambda>c. case c of WriteFile p b \<Rightarrow> True | _ \<Rightarrow> False) cs)"
  by (simp add: writeCalls_def)

lemma writeTarget_identical_skips:
  assumes "fileContents st uri = Some (utf8 contents)"
  shows "writeCalls (snd (writeTarget uri contents st)) = writeCalls st \<and>
         fileContents (snd (writeTarget uri contents st)) = fileContents st"
  using assms by (simp add: writeTarget_cases Let_def writeCalls_def)

lemma writeTarget_again_files:
  "fileContents (snd (writeTarget uri contents (snd (writeTarget uri contents st))))
   = fileContents (snd (writeTarget uri contents st))"
proof -
  define st1 where "st1 = snd (writeTarget uri contents st)"
  let ?d = "path_dirname uri"
  have f1: "fileContents st1 = fileContents st \<or> fileContents st1 = (fileContents st)(uri \<mapsto> utf8 contents)"
    unfolding st1_def by (simp add: writeTarget_cases Let_def)
  show ?thesis
  proof (cases "fst (writeTarget uri contents st) = None")
    case True
    then have "fileContents st1 uri = Some (utf8 contents)"
      unfolding st1_def by (rule writeTarget_resolved_files)
    then show ?thesis using writeTarget_identical_skips[of st1 uri contents] by (simp add: st1_def)
  next
    case False
    then have same: "fileContents st1 = fileContents st" "readOnly st1 = readOnly st" "dirs st \<subseteq> dirs st1"
      and why: "list_ex (\<lambda>q. fileContents st q \<noteq> None) (ancestorDirs ?d) \<or>
            uri \<in> dirs st \<union> set (ancestorDirs ?d) \<or> uri \<in> readOnly st"
      unfolding st1_def by (auto simp: writeTarget_cases Let_def split: if_splits)
    have "fileContents (snd (writeTarget uri contents st1)) = fileContents st1"
      using same why by (auto simp: writeTarget_cases Let_def)
    then show ?thesis by (simp add: st1_def)
  qed
qed

lemma fst_renderTransform:
  "fst (renderTransform h render vs t reason acc) =
     (case render (templateName t) (searchPaths t) vs of
        Inl message \<Rightarrow> fst acc
      | Inr out \<Rightarrow> snd (writeTarget (target t) out (fst acc)))"
  by (cases "render (templateName t) (searchPaths t) vs")
     (auto simp: renderTransform_def split: prod.splits option.splits)

text \<open>
  C6: rendering a FileTransform twice with the same variables and the same renderer writes
  nothing the second time. The contents of the files after the second render are those after
  the first; when the first render resolved (the renderer failed, or the target was written
  or found identical), the second render makes no \<^verbatim>\<open>writeFile\<close> call at all; and whenever
  the rendered bytes equal the bytes of the target, the render makes no \<^verbatim>\<open>writeFile\<close> call
  and leaves the files as they are.
\<close>

theorem render_twice_no_write:
  "fileContents (fst (renderTransform h render vs t r2 (renderTransform h render vs t r1 acc)))
     = fileContents (fst (renderTransform h render vs t r1 acc)) \<and>
   ((case render (templateName t) (searchPaths t) vs of
       Inl message \<Rightarrow> True
     | Inr out \<Rightarrow> fst (writeTarget (target t) out (fst acc)) = None) \<longrightarrow>
    writeCalls (fst (renderTransform h render vs t r2 (renderTransform h render vs t r1 acc)))
      = writeCalls (fst (renderTransform h render vs t r1 acc))) \<and>
   (\<forall>out. render (templateName t) (searchPaths t) vs = Inr out \<and>
          fileContents (fst acc) (target t) = Some (utf8 out) \<longrightarrow>
      writeCalls (fst (renderTransform h render vs t r1 acc)) = writeCalls (fst acc) \<and>
      fileContents (fst (renderTransform h render vs t r1 acc)) = fileContents (fst acc))"
proof (cases "render (templateName t) (searchPaths t) vs")
  case (Inl message)
  then show ?thesis by (simp add: fst_renderTransform)
next
  case (Inr out)
  let ?st1 = "snd (writeTarget (target t) out (fst acc))"
  have a: "fileContents (snd (writeTarget (target t) out ?st1)) = fileContents ?st1"
    by (rule writeTarget_again_files)
  have b: "writeCalls (snd (writeTarget (target t) out ?st1)) = writeCalls ?st1"
    if "fst (writeTarget (target t) out (fst acc)) = None"
    using writeTarget_identical_skips[OF writeTarget_resolved_files[OF that]] by simp
  have c: "writeCalls ?st1 = writeCalls (fst acc) \<and> fileContents ?st1 = fileContents (fst acc)"
    if "fileContents (fst acc) (target t) = Some (utf8 out)"
    using writeTarget_identical_skips[OF that] .
  show ?thesis using Inr a b c by (simp add: fst_renderTransform)
qed

theorem render_twice_no_write_witness:
  "fst (writeTarget (target explicitA) ''hello'' emptyStore) = None \<and>
   writeCalls (fst (renderTransform linuxHost constRender [] explicitA ''change'' (emptyStore, noUi))) = 1 \<and>
   writeCalls (fst (renderTransform linuxHost constRender [] explicitA ''change''
                      (renderTransform linuxHost constRender [] explicitA ''change'' (emptyStore, noUi)))) = 1"
proof -
  have r: "constRender (templateName explicitA) (searchPaths explicitA) [] = Inr ''hello''"
    by (simp add: constRender_def)
  have w: "fst (writeTarget (target explicitA) ''hello'' emptyStore) = None"
    by code_simp
  have one: "writeCalls (fst (renderTransform linuxHost constRender [] explicitA ''change'' (emptyStore, noUi))) = 1"
    by code_simp
  have "writeCalls (fst (renderTransform linuxHost constRender [] explicitA ''change''
                      (renderTransform linuxHost constRender [] explicitA ''change'' (emptyStore, noUi))))
        = writeCalls (fst (renderTransform linuxHost constRender [] explicitA ''change'' (emptyStore, noUi)))"
    using render_twice_no_write[of linuxHost constRender "[]" explicitA "''change''" "''change''" "(emptyStore, noUi)"]
      r w by simp
  then show ?thesis using w one by simp
qed

text \<open>
  C10: every call of \<^verbatim>\<open>writeTarget\<close> starts with \<^verbatim>\<open>createDirectory\<close> on the parent of the
  target; the target is read, and perhaps written, only after the parent and its ancestors
  are directories of the store. No file other than the target changes, the only directories
  added are the parent and its ancestors, and the read-only paths stay. When the target
  already holds the rendered bytes and no file is in the way, the call resolves after
  \<^verbatim>\<open>createDirectory\<close> and \<^verbatim>\<open>readFile\<close>: the directories are created and nothing is written.
\<close>

theorem writeTarget_frame:
  "(\<exists>rest. calls (snd (writeTarget uri contents st))
              = calls st @ CreateDirectory (path_dirname uri) # rest \<and>
           rest \<in> {[], [ReadFile uri], [ReadFile uri, WriteFile uri (utf8 contents)]} \<and>
           (rest \<noteq> [] \<longrightarrow>
              set (ancestorDirs (path_dirname uri))
                \<subseteq> dirs (snd (writeTarget uri contents st)))) \<and>
   (\<forall>q. q \<noteq> uri \<longrightarrow> fileContents (snd (writeTarget uri contents st)) q = fileContents st q) \<and>
   dirs st \<subseteq> dirs (snd (writeTarget uri contents st)) \<and>
   dirs (snd (writeTarget uri contents st))
     \<subseteq> dirs st \<union> set (ancestorDirs (path_dirname uri)) \<and>
   readOnly (snd (writeTarget uri contents st)) = readOnly st \<and>
   (fileContents st uri = Some (utf8 contents) \<and>
    \<not> list_ex (\<lambda>q. fileContents st q \<noteq> None) (ancestorDirs (path_dirname uri)) \<longrightarrow>
      fst (writeTarget uri contents st) = None \<and>
      calls (snd (writeTarget uri contents st))
        = calls st @ [CreateDirectory (path_dirname uri), ReadFile uri] \<and>
      dirs (snd (writeTarget uri contents st))
        = dirs st \<union> set (ancestorDirs (path_dirname uri)) \<and>
      fileContents (snd (writeTarget uri contents st)) = fileContents st)"
  unfolding writeTarget_cases Let_def by auto

theorem writeTarget_frame_witness:
  "fileContents (snd (writeTarget ''/w/out/a'' ''hello'' emptyStore)) ''/w/out/a'' = Some (utf8 ''hello'') \<and>
   calls (snd (writeTarget ''/w/out/a'' ''hello'' (snd (writeTarget ''/w/out/a'' ''hello'' emptyStore))))
     = [CreateDirectory ''/w/out'', ReadFile ''/w/out/a'', WriteFile ''/w/out/a'' (utf8 ''hello''),
        CreateDirectory ''/w/out'', ReadFile ''/w/out/a''] \<and>
   dirs (snd (writeTarget ''/w/out/a'' ''hello'' emptyStore)) = {''/'', ''/w'', ''/w/out''}"
proof -
  let ?st = "snd (writeTarget ''/w/out/a'' ''hello'' emptyStore)"
  have f: "fileContents ?st ''/w/out/a'' = Some (utf8 ''hello'')" by code_simp
  have n: "\<not> list_ex (\<lambda>q. fileContents ?st q \<noteq> None) (ancestorDirs (path_dirname ''/w/out/a''))"
    by code_simp
  have c: "calls ?st = [CreateDirectory ''/w/out'', ReadFile ''/w/out/a'', WriteFile ''/w/out/a'' (utf8 ''hello'')]"
    by code_simp
  have d: "path_dirname ''/w/out/a'' = ''/w/out''" by code_simp
  have "calls (snd (writeTarget ''/w/out/a'' ''hello'' ?st))
        = calls ?st @ [CreateDirectory (path_dirname ''/w/out/a''), ReadFile ''/w/out/a'']"
    using writeTarget_frame[of "''/w/out/a''" "''hello''" ?st] f n by blast
  moreover have "dirs ?st = {''/'', ''/w'', ''/w/out''}" by code_simp
  ultimately show ?thesis using f c d by simp
qed

section \<open>The render scheduler (C2)\<close>

subsection \<open>Units under a change of phase\<close>

lemma setPhase_length [simp]: "length (units (setPhase i p s)) = length (units s)"
  by (simp add: setPhase_def)


lemma setPhase_previous [simp]: "previousOf (setPhase i p s) j = previousOf s j"
  by (cases "i < length (units s)") (simp_all add: setPhase_def nth_list_update list_update_beyond)



lemma setPhase_other [simp]:
  "renderQueue (setPhase i p s) = renderQueue s"
  "renderTimestamps (setPhase i p s) = renderTimestamps s"
  "rendered (setPhase i p s) = rendered s"
  by (simp_all add: setPhase_def)

subsection \<open>The invariant gives the serialization\<close>



subsection \<open>Every step keeps the invariant\<close>

lemma schedulerInv_rendered [simp]: "schedulerInv (s\<lparr>rendered := r\<rparr>) = schedulerInv s"
  by (simp add: schedulerInv_def queueLast_def noEntrySettled_def previousOk_def startedAfter_def
      cong: option.case_cong)









subsection \<open>The calls of a unit\<close>

lemma fold_keeps:
  assumes "\<And>k s. units (f k s) = units s \<and> rendered (f k s) = rendered s"
  shows "units (fold f ks s) = units s \<and> rendered (fold f ks s) = rendered s"
  using assms by (induction ks arbitrary: s) simp_all

lemma cleanup_units [simp]: "units (cleanupStaleRenders h now s) = units s"
  unfolding cleanupStaleRenders_def by (rule fold_keeps[THEN conjunct1]) simp

lemma cleanup_rendered [simp]: "rendered (cleanupStaleRenders h now s) = rendered s"
  unfolding cleanupStaleRenders_def by (rule fold_keeps[THEN conjunct2]) simp










subsection \<open>The calls for one source come in the order of its events\<close>









subsection \<open>The claim\<close>




section \<open>Cycle detection (C1)\<close>

text \<open>
  C1 on the graph of the repository's own test, \<^verbatim>\<open>A\<close> to \<^verbatim>\<open>B\<close>, \<^verbatim>\<open>B\<close> to \<^verbatim>\<open>C\<close>, \<^verbatim>\<open>C\<close> to \<^verbatim>\<open>D\<close>,
  \<^verbatim>\<open>D\<close> to \<^verbatim>\<open>B\<close> and \<^verbatim>\<open>A\<close> to \<^verbatim>\<open>E\<close>. Its one cycle is \<^verbatim>\<open>B\<close>, \<^verbatim>\<open>C\<close>, \<^verbatim>\<open>D\<close>; neither \<^verbatim>\<open>A\<close> nor \<^verbatim>\<open>E\<close>
  lies on a cycle, so the transform from \<^verbatim>\<open>A\<close> to \<^verbatim>\<open>E\<close> is outside all cycles and the claim
  retains it, as the test asserts that \<^verbatim>\<open>A\<close> and \<^verbatim>\<open>E\<close> are no cycle nodes. In \<^verbatim>\<open>hasCycle\<close>
  every caller of a call that returned \<^verbatim>\<open>true\<close> adds itself to \<^verbatim>\<open>cycleNodes\<close>, so \<^verbatim>\<open>A\<close>, from
  which the cycle was reached, is marked, and the filter removes the transform from \<^verbatim>\<open>A\<close> to
  \<^verbatim>\<open>E\<close> with the others: the reload of a configuration file that names the five transforms
  is left with none. On the specification's example the code does what the claim says.
\<close>

theorem cycle_detection_removes_transform_outside_cycles:
  "map (onCycle (edgesOf linuxHost testGraph)) [''/w/A'', ''/w/B'', ''/w/C'', ''/w/D'', ''/w/E'']
     = [False, True, True, True, False] \<and>
   outsideCycles linuxHost testGraph = [edge ''/w/A'' ''/w/E''] \<and>
   map_option fst (detectAndRemoveCycles linuxHost testGraph noUi) = Some [] \<and>
   map (\<lambda>t. (source t, target t)) (gatheredFileTransforms (gatherConfigs cycleHost [cfgCycle] noUi))
     = [(''/w/A'', ''/w/B''), (''/w/B'', ''/w/C''), (''/w/C'', ''/w/D''), (''/w/D'', ''/w/B''),
        (''/w/A'', ''/w/E'')] \<and>
   map_option configFileTransforms (performReload cycleHost [cfgCycle] emptyController) = Some [] \<and>
   map_option fst (detectAndRemoveCycles linuxHost
       [edge ''/w/A'' ''/w/B'', edge ''/w/B'' ''/w/A'', edge ''/w/C'' ''/w/D''] noUi)
     = Some [edge ''/w/C'' ''/w/D'']"
  by code_simp

end
